theory Spec2Isabelle
  imports Main
begin

section \<open>Containers\<close>

text \<open>
  \<^verbatim>\<open>std::map<int, CommentedTime>\<close> (the marker storage, keyed by marker id) and
  \<^verbatim>\<open>QMap<int, int>\<close> (frame position to marker id) are both key-ordered maps. They are
  modelled as association lists kept in ascending key order, so that iteration order is
  the order of the list. Frame positions and ids are C++ \<^verbatim>\<open>int\<close>; they are modelled as
  unbounded integers (the only arithmetic on them is the increment of the id counter
  and the addition of a frame offset, and signed overflow is undefined in C++).
\<close>

fun om_insert :: "int \<Rightarrow> 'v \<Rightarrow> (int \<times> 'v) list \<Rightarrow> (int \<times> 'v) list" where
  "om_insert k v [] = [(k, v)]"
| "om_insert k v (e # xs) =
     (if k < fst e then (k, v) # e # xs
      else if k = fst e then (k, v) # xs
      else e # om_insert k v xs)"

definition om_erase :: "int \<Rightarrow> (int \<times> 'v) list \<Rightarrow> (int \<times> 'v) list" where
  "om_erase k xs = filter (\<lambda>e. fst e \<noteq> k) xs"

definition om_contains :: "(int \<times> 'v) list \<Rightarrow> int \<Rightarrow> bool" where
  "om_contains xs k = (map_of xs k \<noteq> None)"

text \<open>\<^verbatim>\<open>std::distance(m.begin(), m.find(k))\<close>: the row of key \<open>k\<close>.\<close>

fun om_index :: "int \<Rightarrow> (int \<times> 'v) list \<Rightarrow> nat" where
  "om_index k [] = 0"
| "om_index k (e # xs) = (if fst e = k then 0 else Suc (om_index k xs))"

section \<open>Data model\<close>

text \<open>
  \<^verbatim>\<open>CommentedTime\<close> is declared outside the sources at hand; it carries a time, a comment
  and a marker type, read by \<^verbatim>\<open>time()\<close>, \<^verbatim>\<open>comment()\<close> and \<^verbatim>\<open>markerType()\<close>.
  \<^verbatim>\<open>GenTime\<close> is modelled from the spec's Frame Time (a signed integer frame count at
  the timeline's fixed rate), so \<^verbatim>\<open>pos.frames(fps)\<close> and \<^verbatim>\<open>GenTime(frame, fps)\<close> are
  the identity on frame counts.
\<close>

record CommentedTime =
  time :: int
  comment :: string
  markerType :: int

text \<open>The default-constructed \<^verbatim>\<open>CommentedTime()\<close>, returned where no marker is found.\<close>

definition CommentedTime_default :: CommentedTime where
  "CommentedTime_default = \<lparr>time = 0, comment = [], markerType = 0\<rparr>"

text \<open>\<^verbatim>\<open>markerTypes.size()\<close>: the palette has nine colours.\<close>

definition markerTypes_size :: int where
  "markerTypes_size = 9"

text \<open>
  The closures of type \<^verbatim>\<open>Fun\<close> (\<^verbatim>\<open>std::function<bool()>\<close>) that the model builds are
  compositions of three primitive closures, each capturing its arguments by value. A
  primitive closure is a constructor with the captured values; a composed closure is the
  list of primitives in the order in which it runs them.
\<close>

datatype prim =
    ChangeComment int string int
  | AddMarker int string int
  | DeleteMarker int

type_synonym Fun = "prim list"

text \<open>An entry of the undo stack: \<^verbatim>\<open>FunctionalUndoCommand(undo, redo, text)\<close>.\<close>

record undo_command =
  cmd_undo :: Fun
  cmd_redo :: Fun
  cmd_text :: string

text \<open>
  A snap consumer (\<^verbatim>\<open>SnapInterface\<close>) is an abstract object; what the model does to it
  is the sequence of calls it receives.
\<close>

datatype snap_call = AddPoint int | RemovePoint int

text \<open>The signals of the item model that the operations emit.\<close>

datatype role = CommentRole | ColorRole | FrameRole

datatype signal =
    RowsInserted int int
  | RowsRemoved int int
  | DataChanged int int "role list"

text \<open>
  The state. Besides the fields of \<^verbatim>\<open>MarkerListModel\<close> it holds what the operations reach
  through globals and pointers: the id counter of \<^verbatim>\<open>TimelineModel::getNextId\<close>, the
  setting \<^verbatim>\<open>KdenliveSettings::default_marker_type()\<close>, the undo stack behind the weak
  pointer \<^verbatim>\<open>m_undoStack\<close> (\<open>None\<close> when it has expired), and a store of the live snap
  consumers: \<^verbatim>\<open>m_registeredSnaps\<close> holds handles, and a handle absent from the store is an
  expired weak pointer.
\<close>

record MarkerListModel =
  m_guide :: bool
  m_markerList :: "(int \<times> CommentedTime) list"
  m_markerPositions :: "(int \<times> int) list"
  m_registeredSnaps :: "nat list"
  m_undoStack :: "undo_command list option"
  next_id :: int
  default_marker_type :: int
  snap_store :: "(nat \<times> snap_call list) list"
  emitted :: "signal list"

section \<open>Identity\<close>

text \<open>
  Modelled from the spec: \<^verbatim>\<open>TimelineModel::getNextId\<close> is not among the sources. The spec
  describes a single global monotonic counter from which every new entity draws its id;
  the function returns the counter's value and advances the counter by one.
\<close>

definition getNextId :: "int \<Rightarrow> int \<times> int" where
  "getNextId n = (n, n + 1)"

record MoveableItem =
  m_parent :: nat
  m_id :: int
  m_position :: int
  m_currentTrackId :: int

text \<open>The constructor, given the counter; it returns the item and the counter.\<close>

definition MoveableItem_new :: "nat \<Rightarrow> int \<Rightarrow> int \<Rightarrow> MoveableItem \<times> int" where
  "MoveableItem_new parent ident n =
     (case (if ident = - 1 then getNextId n else (ident, n)) of
        (i, n') \<Rightarrow>
          (\<lparr>m_parent = parent, m_id = i, m_position = - 1, m_currentTrackId = - 1\<rparr>, n'))"

definition getId :: "MoveableItem \<Rightarrow> int" where
  "getId item = m_id item"

section \<open>Queries of the marker list\<close>

text \<open>
  In every operation below the result \<open>None\<close> stands for an abort: a failed \<^verbatim>\<open>Q_ASSERT\<close>
  or an exception of \<^verbatim>\<open>std::map::at\<close>.
\<close>

definition markerIdAtFrame :: "MarkerListModel \<Rightarrow> int \<Rightarrow> int" where
  "markerIdAtFrame s pos =
     (if om_contains (m_markerPositions s) pos
      then (case map_of (m_markerPositions s) pos of Some mid \<Rightarrow> mid | None \<Rightarrow> - 1)
      else - 1)"

definition getIdFromPos :: "MarkerListModel \<Rightarrow> int \<Rightarrow> int" where
  "getIdFromPos s frame =
     (if om_contains (m_markerPositions s) frame
      then (case map_of (m_markerPositions s) frame of Some mid \<Rightarrow> mid | None \<Rightarrow> - 1)
      else - 1)"

definition hasMarker :: "MarkerListModel \<Rightarrow> int \<Rightarrow> bool" where
  "hasMarker s frame = om_contains (m_markerPositions s) frame"

definition marker :: "MarkerListModel \<Rightarrow> int \<Rightarrow> CommentedTime option" where
  "marker s frame =
     (let mid = markerIdAtFrame s frame
      in if mid > - 1 then map_of (m_markerList s) mid else Some CommentedTime_default)"

definition getMarker :: "MarkerListModel \<Rightarrow> int \<Rightarrow> (CommentedTime \<times> bool) option" where
  "getMarker s frame =
     (if hasMarker s frame = False then Some (CommentedTime_default, False)
      else map_option (\<lambda>m. (m, True)) (marker s frame))"

definition getRowfromId :: "MarkerListModel \<Rightarrow> int \<Rightarrow> int option" where
  "getRowfromId s mid =
     (if map_of (m_markerList s) mid = None then None
      else Some (int (om_index mid (m_markerList s))))"

section \<open>Snap consumers\<close>

definition store_put :: "nat \<Rightarrow> snap_call list \<Rightarrow> (nat \<times> snap_call list) list
    \<Rightarrow> (nat \<times> snap_call list) list" where
  "store_put r calls h = map (\<lambda>e. if fst e = r then (r, calls) else e) h"

text \<open>
  The loop shared by \<^verbatim>\<open>addSnapPoint\<close> and \<^verbatim>\<open>removeSnapPoint\<close>: every registered handle
  that can still be locked is kept and receives the call; the result is the list of the
  handles kept and the store.
\<close>

fun notify_snaps :: "snap_call \<Rightarrow> nat list \<Rightarrow> (nat \<times> snap_call list) list
    \<Rightarrow> nat list \<times> (nat \<times> snap_call list) list" where
  "notify_snaps c [] h = ([], h)"
| "notify_snaps c (r # rs) h =
     (case map_of h r of
        None \<Rightarrow> notify_snaps c rs h
      | Some calls \<Rightarrow>
          (case notify_snaps c rs (store_put r (calls @ [c]) h) of
             (valid, h') \<Rightarrow> (r # valid, h')))"

definition addSnapPoint :: "int \<Rightarrow> MarkerListModel \<Rightarrow> MarkerListModel" where
  "addSnapPoint pos s =
     (case notify_snaps (AddPoint pos) (m_registeredSnaps s) (snap_store s) of
        (valid, h) \<Rightarrow> s\<lparr>m_registeredSnaps := valid, snap_store := h\<rparr>)"

definition removeSnapPoint :: "int \<Rightarrow> MarkerListModel \<Rightarrow> MarkerListModel" where
  "removeSnapPoint pos s =
     (case notify_snaps (RemovePoint pos) (m_registeredSnaps s) (snap_store s) of
        (valid, h) \<Rightarrow> s\<lparr>m_registeredSnaps := valid, snap_store := h\<rparr>)"

fun seed_points :: "nat \<Rightarrow> int list \<Rightarrow> (nat \<times> snap_call list) list
    \<Rightarrow> (nat \<times> snap_call list) list" where
  "seed_points r [] h = h"
| "seed_points r (p # ps) h =
     (case map_of h r of
        None \<Rightarrow> h
      | Some calls \<Rightarrow> seed_points r ps (store_put r (calls @ [AddPoint p]) h))"

definition registerSnapModel :: "nat \<Rightarrow> MarkerListModel \<Rightarrow> MarkerListModel option" where
  "registerSnapModel r s =
     (if map_of (snap_store s) r \<noteq> None
      then Some (s\<lparr>m_registeredSnaps := m_registeredSnaps s @ [r],
                   snap_store := seed_points r (map fst (m_markerPositions s)) (snap_store s)\<rparr>)
      else None)"

section \<open>The primitive closures\<close>

definition changeComment_lambda :: "int \<Rightarrow> string \<Rightarrow> int \<Rightarrow> MarkerListModel
    \<Rightarrow> (bool \<times> MarkerListModel) option" where
  "changeComment_lambda pos cmt ty s =
     (if \<not> hasMarker s pos then None
      else
        let mid = getIdFromPos s pos in
        (case getRowfromId s mid of
           None \<Rightarrow> None
         | Some row \<Rightarrow>
             (case map_of (m_markerList s) mid of
                None \<Rightarrow> None
              | Some m \<Rightarrow>
                  Some (True,
                    s\<lparr>m_markerList :=
                        om_insert mid (m\<lparr>comment := cmt, markerType := ty\<rparr>) (m_markerList s),
                      emitted := emitted s @ [DataChanged row row [CommentRole, ColorRole]]\<rparr>))))"

definition addMarker_lambda :: "int \<Rightarrow> string \<Rightarrow> int \<Rightarrow> MarkerListModel
    \<Rightarrow> (bool \<times> MarkerListModel) option" where
  "addMarker_lambda pos cmt ty s =
     (if \<not> (hasMarker s pos = False) then None
      else
        (case getNextId (next_id s) of
           (mid, n') \<Rightarrow>
             let insertionRow = int (length (m_markerList s)) in
             Some (True,
               addSnapPoint pos
                 (s\<lparr>m_markerList :=
                      om_insert mid \<lparr>time = pos, comment = cmt, markerType = ty\<rparr> (m_markerList s),
                    m_markerPositions := om_insert pos mid (m_markerPositions s),
                    next_id := n',
                    emitted := emitted s @ [RowsInserted insertionRow insertionRow]\<rparr>))))"

definition deleteMarker_lambda :: "int \<Rightarrow> MarkerListModel
    \<Rightarrow> (bool \<times> MarkerListModel) option" where
  "deleteMarker_lambda pos s =
     (if \<not> hasMarker s pos then None
      else
        let mid = getIdFromPos s pos in
        (case getRowfromId s mid of
           None \<Rightarrow> None
         | Some row \<Rightarrow>
             Some (True,
               removeSnapPoint pos
                 (s\<lparr>m_markerList := om_erase mid (m_markerList s),
                    m_markerPositions := om_erase pos (m_markerPositions s),
                    emitted := emitted s @ [RowsRemoved row row]\<rparr>))))"

fun run_prim :: "prim \<Rightarrow> MarkerListModel \<Rightarrow> (bool \<times> MarkerListModel) option" where
  "run_prim (ChangeComment pos cmt ty) s = changeComment_lambda pos cmt ty s"
| "run_prim (AddMarker pos cmt ty) s = addMarker_lambda pos cmt ty s"
| "run_prim (DeleteMarker pos) s = deleteMarker_lambda pos s"

text \<open>
  Running a composed closure. The macro \<^verbatim>\<open>UPDATE_UNDO_REDO(operation, reverse, undo, redo)\<close>
  of \<^verbatim>\<open>macros.hpp\<close> (not among the sources) replaces \<^verbatim>\<open>undo\<close> by a closure that runs
  \<^verbatim>\<open>reverse\<close> and then the old \<^verbatim>\<open>undo\<close>, and \<^verbatim>\<open>redo\<close> by a closure that runs the old
  \<^verbatim>\<open>redo\<close> and then \<^verbatim>\<open>operation\<close>; either runs both parts and returns the conjunction of
  their results. The initial closure \<^verbatim>\<open>[]() { return true; }\<close> is the empty list.
\<close>

fun run_Fun :: "Fun \<Rightarrow> MarkerListModel \<Rightarrow> (bool \<times> MarkerListModel) option" where
  "run_Fun [] s = Some (True, s)"
| "run_Fun (p # ps) s =
     (case run_prim p s of
        None \<Rightarrow> None
      | Some (v, s') \<Rightarrow>
          (case run_Fun ps s' of
             None \<Rightarrow> None
           | Some (r, s'') \<Rightarrow> Some (r \<and> v, s'')))"

definition UPDATE_UNDO_REDO :: "prim \<Rightarrow> prim \<Rightarrow> Fun \<Rightarrow> Fun \<Rightarrow> Fun \<times> Fun" where
  "UPDATE_UNDO_REDO operation reverse undo redo = (reverse # undo, redo @ [operation])"

text \<open>
  \<^verbatim>\<open>PUSH_UNDO(undo, redo, text)\<close>, also of \<^verbatim>\<open>macros.hpp\<close>: the command is pushed on the
  undo stack if the weak pointer can be locked; otherwise an assertion fails. The
  translation function \<^verbatim>\<open>i18n\<close> is taken as the identity on the source texts.
\<close>

definition PUSH_UNDO :: "Fun \<Rightarrow> Fun \<Rightarrow> string \<Rightarrow> MarkerListModel \<Rightarrow> MarkerListModel option" where
  "PUSH_UNDO undo redo txt s =
     (case m_undoStack s of
        None \<Rightarrow> None
      | Some stack \<Rightarrow>
          Some (s\<lparr>m_undoStack :=
                    Some (stack @ [\<lparr>cmd_undo = undo, cmd_redo = redo, cmd_text = txt\<rparr>])\<rparr>))"

section \<open>Adding, removing and editing markers\<close>

text \<open>
  The overloads that take the closures \<^verbatim>\<open>undo\<close> and \<^verbatim>\<open>redo\<close> by reference carry
  the suffix \<open>_ur\<close>; they return the result, both closures and the state.
\<close>

definition addMarker_ur :: "int \<Rightarrow> string \<Rightarrow> int \<Rightarrow> Fun \<Rightarrow> Fun \<Rightarrow> MarkerListModel
    \<Rightarrow> (bool \<times> Fun \<times> Fun \<times> MarkerListModel) option" where
  "addMarker_ur pos cmt ty undo redo s =
     (let ty' = (if ty = - 1 then default_marker_type s else ty) in
      if \<not> (ty' \<ge> 0 \<and> ty' < markerTypes_size) then None
      else
        (case (if hasMarker s pos
               then map_option
                      (\<lambda>current. (ChangeComment pos (comment current) (markerType current),
                                   ChangeComment pos cmt ty'))
                      (marker s pos)
               else Some (DeleteMarker pos, AddMarker pos cmt ty')) of
           None \<Rightarrow> None
         | Some (local_undo, local_redo) \<Rightarrow>
             (case run_prim local_redo s of
                None \<Rightarrow> None
              | Some (ok, s') \<Rightarrow>
                  if ok
                  then (case UPDATE_UNDO_REDO local_redo local_undo undo redo of
                          (undo', redo') \<Rightarrow> Some (True, undo', redo', s'))
                  else Some (False, undo, redo, s'))))"

definition addMarker :: "int \<Rightarrow> string \<Rightarrow> int \<Rightarrow> MarkerListModel
    \<Rightarrow> (bool \<times> MarkerListModel) option" where
  "addMarker pos cmt ty s =
     (let rename = hasMarker s pos in
      case addMarker_ur pos cmt ty [] [] s of
        None \<Rightarrow> None
      | Some (res, undo, redo, s') \<Rightarrow>
          if res
          then (if rename
                then map_option (Pair res)
                       (PUSH_UNDO undo redo
                          (if m_guide s' then ''Rename guide'' else ''Rename marker'') s')
                else map_option (Pair res)
                       (PUSH_UNDO undo redo
                          (if m_guide s' then ''Add guide'' else ''Add marker'') s'))
          else Some (res, s'))"

definition removeMarker_ur :: "int \<Rightarrow> Fun \<Rightarrow> Fun \<Rightarrow> MarkerListModel
    \<Rightarrow> (bool \<times> Fun \<times> Fun \<times> MarkerListModel) option" where
  "removeMarker_ur pos undo redo s =
     (if hasMarker s pos = False then Some (False, undo, redo, s)
      else
        (case marker s pos of
           None \<Rightarrow> None
         | Some current \<Rightarrow>
             let local_undo = AddMarker pos (comment current) (markerType current);
                 local_redo = DeleteMarker pos
             in (case run_prim local_redo s of
                   None \<Rightarrow> None
                 | Some (ok, s') \<Rightarrow>
                     if ok
                     then (case UPDATE_UNDO_REDO local_redo local_undo undo redo of
                             (undo', redo') \<Rightarrow> Some (True, undo', redo', s'))
                     else Some (False, undo, redo, s'))))"

definition removeMarker :: "int \<Rightarrow> MarkerListModel \<Rightarrow> (bool \<times> MarkerListModel) option" where
  "removeMarker pos s =
     (case removeMarker_ur pos [] [] s of
        None \<Rightarrow> None
      | Some (res, undo, redo, s') \<Rightarrow>
          if res
          then map_option (Pair res)
                 (PUSH_UNDO undo redo
                    (if m_guide s' then ''Delete guide'' else ''Delete marker'') s')
          else Some (res, s'))"

definition editMarker :: "int \<Rightarrow> int \<Rightarrow> string \<Rightarrow> int \<Rightarrow> MarkerListModel
    \<Rightarrow> (bool \<times> MarkerListModel) option" where
  "editMarker oldPos pos cmt0 ty0 s =
     (if \<not> hasMarker s oldPos then None
      else
        (case marker s oldPos of
           None \<Rightarrow> None
         | Some current \<Rightarrow>
             let cmt = (if cmt0 = [] then comment current else cmt0);
                 ty = (if ty0 = - 1 then markerType current else ty0)
             in if oldPos = pos \<and> comment current = cmt \<and> markerType current = ty
                then Some (True, s)
                else
                  (case removeMarker_ur oldPos [] [] s of
                     None \<Rightarrow> None
                   | Some (res1, undo1, redo1, s1) \<Rightarrow>
                       (case (if res1 then addMarker_ur pos cmt ty undo1 redo1 s1
                              else Some (res1, undo1, redo1, s1)) of
                          None \<Rightarrow> None
                        | Some (res, undo, redo, s2) \<Rightarrow>
                            if res
                            then map_option (Pair res)
                                   (PUSH_UNDO undo redo
                                      (if m_guide s2 then ''Edit guide'' else ''Edit marker'') s2)
                            else
                              (case run_Fun undo s2 of
                                 None \<Rightarrow> None
                               | Some (undone, s3) \<Rightarrow>
                                   if undone then Some (res, s3) else None)))))"

section \<open>Moving markers\<close>

definition moveMarker :: "int \<Rightarrow> int \<Rightarrow> MarkerListModel \<Rightarrow> (bool \<times> MarkerListModel) option" where
  "moveMarker mid pos s =
     (case map_of (m_markerList s) mid of
        None \<Rightarrow> None
      | Some m \<Rightarrow>
          if hasMarker s pos then Some (False, s)
          else
            (case getRowfromId s mid of
               None \<Rightarrow> None
             | Some row \<Rightarrow>
                 let oldPos = time m in
                 Some (True,
                   s\<lparr>m_markerList := om_insert mid (m\<lparr>time := pos\<rparr>) (m_markerList s),
                     m_markerPositions := om_insert pos mid (om_erase oldPos (m_markerPositions s)),
                     emitted := emitted s @ [DataChanged row row [FrameRole]]\<rparr>)))"

text \<open>
  The loop of \<^verbatim>\<open>moveMarkersWithoutUndo\<close>, with its local variables \<^verbatim>\<open>firstRow\<close> and
  \<^verbatim>\<open>lastRow\<close>.
\<close>

fun moveMarkersWithoutUndo_loop :: "int list \<Rightarrow> int \<Rightarrow> bool \<Rightarrow> int \<Rightarrow> int \<Rightarrow> MarkerListModel
    \<Rightarrow> (int \<times> int \<times> MarkerListModel) option" where
  "moveMarkersWithoutUndo_loop [] offset updateView firstRow lastRow s =
     Some (firstRow, lastRow, s)"
| "moveMarkersWithoutUndo_loop (mid # rest) offset updateView firstRow lastRow s =
     (case map_of (m_markerList s) mid of
        None \<Rightarrow> None
      | Some m \<Rightarrow>
          let t = time m;
              positions1 = om_erase t (m_markerPositions s);
              t' = t + offset;
              positions2 = om_insert t' mid positions1;
              s' = s\<lparr>m_markerList := om_insert mid (m\<lparr>time := t'\<rparr>) (m_markerList s),
                     m_markerPositions := positions2\<rparr>
          in if \<not> updateView
             then moveMarkersWithoutUndo_loop rest offset updateView firstRow lastRow s'
             else
               (case getRowfromId s' mid of
                  None \<Rightarrow> None
                | Some row \<Rightarrow>
                    if firstRow = - 1
                    then moveMarkersWithoutUndo_loop rest offset updateView row row s'
                    else if row > lastRow
                    then moveMarkersWithoutUndo_loop rest offset updateView firstRow row s'
                    else if row < firstRow
                    then moveMarkersWithoutUndo_loop rest offset updateView row lastRow s'
                    else moveMarkersWithoutUndo_loop rest offset updateView firstRow lastRow s'))"

definition moveMarkersWithoutUndo :: "int list \<Rightarrow> int \<Rightarrow> bool \<Rightarrow> MarkerListModel
    \<Rightarrow> MarkerListModel option" where
  "moveMarkersWithoutUndo markersId offset updateView s =
     (if int (length markersId) \<le> 0 then Some s
      else
        (case moveMarkersWithoutUndo_loop markersId offset updateView (- 1) (- 1) s of
           None \<Rightarrow> None
         | Some (firstRow, lastRow, s') \<Rightarrow>
             if updateView
             then Some (s'\<lparr>emitted := emitted s' @ [DataChanged firstRow lastRow [FrameRole]]\<rparr>)
             else Some s'))"

text \<open>The loop of \<^verbatim>\<open>moveMarkers\<close>; \<open>res\<close> is the local variable of that name.\<close>

fun moveMarkers_loop :: "bool \<Rightarrow> CommentedTime list \<Rightarrow> int \<Rightarrow> int \<Rightarrow> Fun \<Rightarrow> Fun
    \<Rightarrow> MarkerListModel \<Rightarrow> (bool \<times> Fun \<times> Fun \<times> MarkerListModel) option" where
  "moveMarkers_loop res [] fromPos toPos undo redo s = Some (res, undo, redo, s)"
| "moveMarkers_loop res (m # ms) fromPos toPos undo redo s =
     (let oldPos = time m;
          oldComment = comment m;
          oldType = markerType m;
          newPos = oldPos + (toPos - fromPos)
      in case removeMarker_ur oldPos undo redo s of
           None \<Rightarrow> None
         | Some (res1, undo1, redo1, s1) \<Rightarrow>
             if res1
             then (case addMarker_ur newPos oldComment oldType undo1 redo1 s1 of
                     None \<Rightarrow> None
                   | Some (res2, undo2, redo2, s2) \<Rightarrow>
                       moveMarkers_loop res2 ms fromPos toPos undo2 redo2 s2)
             else Some (res1, undo1, redo1, s1))"

definition moveMarkers :: "CommentedTime list \<Rightarrow> int \<Rightarrow> int \<Rightarrow> Fun \<Rightarrow> Fun \<Rightarrow> MarkerListModel
    \<Rightarrow> (bool \<times> Fun \<times> Fun \<times> MarkerListModel) option" where
  "moveMarkers markers fromPos toPos undo redo s =
     (if int (length markers) \<le> 0 then Some (False, undo, redo, s)
      else moveMarkers_loop False markers fromPos toPos undo redo s)"

section \<open>JSON import and export\<close>

text \<open>
  The document that \<^verbatim>\<open>QJsonDocument::fromJson\<close> parses from the text is modelled as a
  value; the text layer of JSON is not. \<open>JInt\<close> is a number that \<^verbatim>\<open>toInt\<close> accepts as an
  integer, \<open>JFrac\<close> any other number, \<open>JUndefined\<close> what indexing an object with an absent
  key gives, and a document that is neither an array nor an object (a parse error
  included) is any value other than \<open>JArray\<close> and \<open>JObject\<close>.
\<close>

datatype jvalue =
    JNull
  | JUndefined
  | JBool bool
  | JInt int
  | JFrac
  | JString string
  | JArray "jvalue list"
  | JObject "(string \<times> jvalue) list"

fun toInt :: "jvalue \<Rightarrow> int \<Rightarrow> int" where
  "toInt (JInt i) d = i"
| "toInt v d = d"

fun toString :: "jvalue \<Rightarrow> string \<Rightarrow> string" where
  "toString (JString t) d = t"
| "toString v d = d"

definition obj_contains :: "(string \<times> jvalue) list \<Rightarrow> string \<Rightarrow> bool" where
  "obj_contains obj key = (map_of obj key \<noteq> None)"

definition obj_value :: "(string \<times> jvalue) list \<Rightarrow> string \<Rightarrow> jvalue" where
  "obj_value obj key = (case map_of obj key of None \<Rightarrow> JUndefined | Some v \<Rightarrow> v)"

text \<open>The loop over the entries of the array in \<^verbatim>\<open>importFromJson\<close>.\<close>

fun importFromJson_loop :: "jvalue list \<Rightarrow> bool \<Rightarrow> Fun \<Rightarrow> Fun \<Rightarrow> MarkerListModel
    \<Rightarrow> (bool \<times> Fun \<times> Fun \<times> MarkerListModel) option" where
  "importFromJson_loop [] ignoreConflicts undo redo s = Some (True, undo, redo, s)"
| "importFromJson_loop (JObject entryObj # rest) ignoreConflicts undo redo s =
     (if \<not> obj_contains entryObj ''pos''
      then importFromJson_loop rest ignoreConflicts undo redo s
      else
        let pos = toInt (obj_value entryObj ''pos'') 0;
            cmt = toString (obj_value entryObj ''comment'') ''Marker'';
            ty0 = toInt (obj_value entryObj ''type'') 0;
            ty = (if ty0 < 0 \<or> ty0 \<ge> markerTypes_size then 0 else ty0)
        in
          (case (if \<not> ignoreConflicts \<and> hasMarker s pos
                 then map_option
                        (\<lambda>oldMarker. comment oldMarker = cmt \<and> ty = markerType oldMarker)
                        (marker s pos)
                 else Some True) of
             None \<Rightarrow> None
           | Some res0 \<Rightarrow>
               (case (if res0 then addMarker_ur pos cmt ty undo redo s
                      else Some (False, undo, redo, s)) of
                  None \<Rightarrow> None
                | Some (res, undo', redo', s') \<Rightarrow>
                    if \<not> res
                    then (case run_Fun undo' s' of
                            None \<Rightarrow> None
                          | Some (undone, s'') \<Rightarrow>
                              if undone then Some (False, undo', redo', s'') else None)
                    else importFromJson_loop rest ignoreConflicts undo' redo' s')))"
| "importFromJson_loop (entry # rest) ignoreConflicts undo redo s =
     importFromJson_loop rest ignoreConflicts undo redo s"

definition importFromJson_ur :: "jvalue \<Rightarrow> bool \<Rightarrow> Fun \<Rightarrow> Fun \<Rightarrow> MarkerListModel
    \<Rightarrow> (bool \<times> Fun \<times> Fun \<times> MarkerListModel) option" where
  "importFromJson_ur data ignoreConflicts undo redo s =
     (case data of
        JArray list \<Rightarrow> importFromJson_loop list ignoreConflicts undo redo s
      | _ \<Rightarrow> Some (False, undo, redo, s))"

definition importFromJson :: "jvalue \<Rightarrow> bool \<Rightarrow> bool \<Rightarrow> MarkerListModel
    \<Rightarrow> (bool \<times> MarkerListModel) option" where
  "importFromJson data ignoreConflicts pushUndo s =
     (case importFromJson_ur data ignoreConflicts [] [] s of
        None \<Rightarrow> None
      | Some (result, undo, redo, s') \<Rightarrow>
          if pushUndo
          then map_option (Pair result)
                 (PUSH_UNDO undo redo
                    (if m_guide s' then ''Import guides'' else ''Import markers'') s')
          else Some (result, s'))"

definition marker_json :: "CommentedTime \<Rightarrow> jvalue" where
  "marker_json m =
     JObject [(''pos'', JInt (time m)),
              (''comment'', JString (comment m)),
              (''type'', JInt (markerType m))]"

definition toJson :: "MarkerListModel \<Rightarrow> jvalue" where
  "toJson s = JArray (map (\<lambda>e. marker_json (snd e)) (m_markerList s))"

section \<open>Removing all markers\<close>

fun removeAllMarkers_loop :: "int list \<Rightarrow> Fun \<Rightarrow> Fun \<Rightarrow> MarkerListModel
    \<Rightarrow> (bool \<times> Fun \<times> Fun \<times> MarkerListModel) option" where
  "removeAllMarkers_loop [] local_undo local_redo s = Some (True, local_undo, local_redo, s)"
| "removeAllMarkers_loop (p # ps) local_undo local_redo s =
     (case removeMarker_ur p local_undo local_redo s of
        None \<Rightarrow> None
      | Some (res, undo', redo', s') \<Rightarrow>
          if \<not> res
          then (case run_Fun undo' s' of
                  None \<Rightarrow> None
                | Some (undone, s'') \<Rightarrow>
                    if undone then Some (False, undo', redo', s'') else None)
          else removeAllMarkers_loop ps undo' redo' s')"

definition removeAllMarkers :: "MarkerListModel \<Rightarrow> (bool \<times> MarkerListModel) option" where
  "removeAllMarkers s =
     (let all_pos = map (\<lambda>e. time (snd e)) (m_markerList s) in
      case removeAllMarkers_loop all_pos [] [] s of
        None \<Rightarrow> None
      | Some (res, local_undo, local_redo, s') \<Rightarrow>
          if res
          then map_option (Pair True)
                 (PUSH_UNDO local_undo local_redo
                    (if m_guide s' then ''Delete all guides'' else ''Delete all markers'') s')
          else Some (False, s'))"

section \<open>Consistency of a marker list\<close>

text \<open>
  The two containers are key-ordered; both hold the same set of pairs of a marker id and
  its frame position; the counter is not negative and every id has been drawn from it;
  every marker type is an index into the palette.
\<close>

definition consistent :: "MarkerListModel \<Rightarrow> bool" where
  "consistent s =
     (sorted_wrt (<) (map fst (m_markerList s)) \<and>
      sorted_wrt (<) (map fst (m_markerPositions s)) \<and>
      set (map (\<lambda>e. (snd e, fst e)) (m_markerPositions s)) =
        set (map (\<lambda>e. (fst e, time (snd e))) (m_markerList s)) \<and>
      0 \<le> next_id s \<and>
      list_all (\<lambda>e. 0 \<le> fst e \<and> fst e < next_id s \<and>
                     0 \<le> markerType (snd e) \<and> markerType (snd e) < markerTypes_size)
        (m_markerList s))"

text \<open>No two markers of the list share a frame position.\<close>

definition unique_positions :: "MarkerListModel \<Rightarrow> bool" where
  "unique_positions s = distinct (map (\<lambda>e. time (snd e)) (m_markerList s))"

section \<open>Auxiliary notions\<close>

text \<open>
  The position, the comment and the type that the loop of \<^verbatim>\<open>importFromJson\<close> reads from
  an entry, with the defaults and the correction of the type that the loop applies.
\<close>

definition entry_pos :: "(string \<times> jvalue) list \<Rightarrow> int" where
  "entry_pos entryObj = toInt (obj_value entryObj ''pos'') 0"

definition entry_comment :: "(string \<times> jvalue) list \<Rightarrow> string" where
  "entry_comment entryObj = toString (obj_value entryObj ''comment'') ''Marker''"

definition entry_type :: "(string \<times> jvalue) list \<Rightarrow> int" where
  "entry_type entryObj =
     (let ty0 = toInt (obj_value entryObj ''type'') 0
      in if ty0 < 0 \<or> ty0 \<ge> markerTypes_size then 0 else ty0)"

text \<open>
  An entry conflicts with a marker storage if it has a position and the storage holds a
  marker at that position whose comment or type differs from the entry's.
\<close>

definition conflicting :: "(int \<times> CommentedTime) list \<Rightarrow> (string \<times> jvalue) list \<Rightarrow> bool" where
  "conflicting L entryObj =
     (obj_contains entryObj ''pos'' \<and>
      (\<exists>old\<in>snd ` set L.
         time old = entry_pos entryObj \<and>
         (comment old \<noteq> entry_comment entryObj \<or> markerType old \<noteq> entry_type entryObj)))"

text \<open>
  A closure rolls a state back to given containers if, run in any state with the same
  marker storage and position index, it returns true and leaves those containers.
\<close>

definition rolls_back :: "Fun \<Rightarrow> MarkerListModel \<Rightarrow> (int \<times> CommentedTime) list
    \<Rightarrow> (int \<times> int) list \<Rightarrow> bool" where
  "rolls_back undo s L0 P0 =
     (\<forall>s1. m_markerList s1 = m_markerList s \<and> m_markerPositions s1 = m_markerPositions s \<longrightarrow>
        (\<exists>s2. run_Fun undo s1 = Some (True, s2) \<and>
              m_markerList s2 = L0 \<and> m_markerPositions s2 = P0))"

section \<open>Example states\<close>

text \<open>
  A list of clip markers with two markers, at frames 10 and 20, and two registered snap
  consumers of which the second has expired.
\<close>

definition two_markers :: MarkerListModel where
  "two_markers =
     \<lparr>m_guide = False,
      m_markerList =
        [(0, \<lparr>time = 10, comment = ''a'', markerType = 0\<rparr>),
         (1, \<lparr>time = 20, comment = ''b'', markerType = 1\<rparr>)],
      m_markerPositions = [(10, 0), (20, 1)],
      m_registeredSnaps = [0, 1],
      m_undoStack = Some [],
      next_id = 2,
      default_marker_type = 0,
      snap_store = [(0, [AddPoint 10, AddPoint 20])],
      emitted = []\<rparr>"

text \<open>An empty list of guides.\<close>

definition no_markers :: MarkerListModel where
  "no_markers =
     \<lparr>m_guide = True,
      m_markerList = [],
      m_markerPositions = [],
      m_registeredSnaps = [],
      m_undoStack = Some [],
      next_id = 0,
      default_marker_type = 0,
      snap_store = [],
      emitted = []\<rparr>"

section \<open>Facts about the containers\<close>

lemma map_of_om_insert: "map_of (om_insert k v xs) = (map_of xs)(k \<mapsto> v)"
  by (induction xs) (auto simp: fun_eq_iff)

lemma map_of_om_erase: "map_of (om_erase k xs) = (map_of xs)(k := None)"
  by (induction xs) (auto simp: om_erase_def fun_eq_iff)

lemma keys_om_insert: "fst ` set (om_insert k v xs) = insert k (fst ` set xs)"
  by (induction xs) auto

lemma set_om_erase: "set (om_erase k xs) = {e \<in> set xs. fst e \<noteq> k}"
  by (auto simp: om_erase_def)

lemma sorted_om_insert:
  "sorted_wrt (<) (map fst xs) \<Longrightarrow> sorted_wrt (<) (map fst (om_insert k v xs))"
proof (induction xs)
  case Nil
  then show ?case by simp
next
  case (Cons e xs)
  have "\<forall>y\<in>fst ` set (om_insert k v xs). fst e < y" if "fst e < k"
    using Cons.prems that by (auto simp: keys_om_insert)
  with Cons show ?case by auto
qed

lemma set_om_insert:
  "sorted_wrt (<) (map fst xs) \<Longrightarrow>
   set (om_insert k v xs) = insert (k, v) {e \<in> set xs. fst e \<noteq> k}"
proof (induction xs)
  case Nil
  then show ?case by simp
next
  case (Cons e xs)
  from Cons.prems have gt: "\<forall>y\<in>set xs. fst e < fst y" and srt: "sorted_wrt (<) (map fst xs)"
    by auto
  show ?case
  proof (cases "k < fst e")
    case True
    with gt have "{y \<in> set (e # xs). fst y \<noteq> k} = set (e # xs)" by force
    with True show ?thesis by simp
  next
    case False
    show ?thesis
    proof (cases "k = fst e")
      case True
      with gt have "{y \<in> set (e # xs). fst y \<noteq> k} = set xs" by force
      with True show ?thesis by simp
    next
      case neq: False
      with False have "{y \<in> set (e # xs). fst y \<noteq> k} = insert e {y \<in> set xs. fst y \<noteq> k}"
        by auto
      with False neq Cons.IH[OF srt] show ?thesis by auto
    qed
  qed
qed

lemma sorted_om_erase:
  "sorted_wrt (<) (map fst xs) \<Longrightarrow> sorted_wrt (<) (map fst (om_erase k xs))"
  by (induction xs) (auto simp: om_erase_def)

lemma om_erase_absent: "k \<notin> fst ` set xs \<Longrightarrow> om_erase k xs = xs"
  by (induction xs) (auto simp: om_erase_def)

lemma om_erase_om_insert: "k \<notin> fst ` set xs \<Longrightarrow> om_erase k (om_insert k v xs) = xs"
proof (induction xs)
  case Nil
  then show ?case by (simp add: om_erase_def)
next
  case (Cons e xs)
  then have "om_erase k (e # xs) = e # xs" by (intro om_erase_absent) 
  with Cons show ?case by (auto simp: om_erase_def)
qed

lemma om_insert_append: "\<forall>e\<in>set xs. fst e < k \<Longrightarrow> om_insert k v xs = xs @ [(k, v)]"
  by (induction xs) auto

lemma sorted_lookup_head:
  fixes e :: "int \<times> 'v"
  shows "sorted_wrt (<) (map fst (e # xs)) \<Longrightarrow> map_of (e # xs) k = Some v \<Longrightarrow> \<not> k < fst e"
proof
  assume lt: "k < fst e"
  assume srt: "sorted_wrt (<) (map fst (e # xs))" and look: "map_of (e # xs) k = Some v"
  from lt look have "map_of xs k = Some v" by (simp split: if_splits)
  then have "(k, v) \<in> set xs" by (rule map_of_SomeD)
  with srt have "fst e < k" by force
  with lt show False by simp
qed

lemma om_insert_same:
  "sorted_wrt (<) (map fst xs) \<Longrightarrow> map_of xs k = Some v \<Longrightarrow> om_insert k v xs = xs"
proof (induction xs)
  case Nil
  then show ?case by simp
next
  case (Cons e xs)
  from sorted_lookup_head[OF Cons.prems] have "\<not> k < fst e" .
  with Cons show ?case by (auto split: if_splits)
qed

lemma om_insert_idem: "om_insert k v (om_insert k w xs) = om_insert k v xs"
  by (induction xs) auto

lemma keys_om_insert_existing:
  "sorted_wrt (<) (map fst xs) \<Longrightarrow> map_of xs k = Some w \<Longrightarrow>
   map fst (om_insert k v xs) = map fst xs"
proof (induction xs)
  case Nil
  then show ?case by simp
next
  case (Cons e xs)
  from sorted_lookup_head[OF Cons.prems] have "\<not> k < fst e" .
  with Cons show ?case by (auto split: if_splits)
qed

lemma sorted_keys_distinct:
  fixes xs :: "(int \<times> 'v) list"
  shows "sorted_wrt (<) (map fst xs) \<Longrightarrow> distinct (map fst xs)"
  using strict_sorted_iff by blast

section \<open>Facts about consistent marker lists\<close>

lemma snap_fields [simp]:
  "m_markerList (addSnapPoint p s) = m_markerList s"
  "m_markerPositions (addSnapPoint p s) = m_markerPositions s"
  "next_id (addSnapPoint p s) = next_id s"
  "m_undoStack (addSnapPoint p s) = m_undoStack s"
  "m_guide (addSnapPoint p s) = m_guide s"
  "default_marker_type (addSnapPoint p s) = default_marker_type s"
  "emitted (addSnapPoint p s) = emitted s"
  "m_markerList (removeSnapPoint p s) = m_markerList s"
  "m_markerPositions (removeSnapPoint p s) = m_markerPositions s"
  "next_id (removeSnapPoint p s) = next_id s"
  "m_undoStack (removeSnapPoint p s) = m_undoStack s"
  "m_guide (removeSnapPoint p s) = m_guide s"
  "default_marker_type (removeSnapPoint p s) = default_marker_type s"
  "emitted (removeSnapPoint p s) = emitted s"
  by (simp_all add: addSnapPoint_def removeSnapPoint_def split: prod.splits)

lemma consistent_cong:
  "m_markerList s' = m_markerList s \<Longrightarrow> m_markerPositions s' = m_markerPositions s \<Longrightarrow>
   next_id s' = next_id s \<Longrightarrow> consistent s' = consistent s"
  by (simp add: consistent_def)

lemma hasMarker_cong:
  "m_markerPositions s' = m_markerPositions s \<Longrightarrow> hasMarker s' = hasMarker s"
  by (simp add: hasMarker_def fun_eq_iff)

lemma marker_cong:
  "m_markerList s' = m_markerList s \<Longrightarrow> m_markerPositions s' = m_markerPositions s \<Longrightarrow>
   marker s' = marker s"
  by (simp add: marker_def markerIdAtFrame_def fun_eq_iff Let_def)

lemma positions_lookup:
  assumes "consistent s"
  shows "map_of (m_markerPositions s) p = Some mid \<longleftrightarrow>
         (\<exists>m. map_of (m_markerList s) mid = Some m \<and> time m = p)"
proof -
  from assms have dP: "distinct (map fst (m_markerPositions s))"
    and dL: "distinct (map fst (m_markerList s))"
    and eq: "set (map (\<lambda>e. (snd e, fst e)) (m_markerPositions s)) =
             set (map (\<lambda>e. (fst e, time (snd e))) (m_markerList s))"
    by (simp_all add: consistent_def sorted_keys_distinct)
  have "map_of (m_markerPositions s) p = Some mid \<longleftrightarrow> (p, mid) \<in> set (m_markerPositions s)"
    using dP by simp
  also have "\<dots> \<longleftrightarrow> (mid, p) \<in> set (map (\<lambda>e. (snd e, fst e)) (m_markerPositions s))"
    by force
  also have "\<dots> \<longleftrightarrow> (mid, p) \<in> set (map (\<lambda>e. (fst e, time (snd e))) (m_markerList s))"
    by (simp only: eq)
  also have "\<dots> \<longleftrightarrow> (\<exists>m. (mid, m) \<in> set (m_markerList s) \<and> time m = p)"
    by force
  also have "\<dots> \<longleftrightarrow> (\<exists>m. map_of (m_markerList s) mid = Some m \<and> time m = p)"
    using dL by simp
  finally show ?thesis .
qed

lemma marker_bounds:
  assumes "consistent s" and "map_of (m_markerList s) mid = Some m"
  shows "0 \<le> mid" and "mid < next_id s" and "0 \<le> markerType m"
    and "markerType m < markerTypes_size"
proof -
  from assms(2) have "(mid, m) \<in> set (m_markerList s)" by (rule map_of_SomeD)
  with assms(1) show "0 \<le> mid" and "mid < next_id s" and "0 \<le> markerType m"
    and "markerType m < markerTypes_size"
    by (auto simp: consistent_def list_all_iff)
qed

lemma hasMarker_lookup:
  "hasMarker s p \<longleftrightarrow> (\<exists>mid. map_of (m_markerPositions s) p = Some mid)"
  by (simp add: hasMarker_def om_contains_def)

lemma lookup_queries:
  assumes "consistent s" and "map_of (m_markerPositions s) p = Some mid"
  shows "hasMarker s p" and "getIdFromPos s p = mid" and "markerIdAtFrame s p = mid"
    and "\<exists>m. map_of (m_markerList s) mid = Some m \<and> time m = p \<and> marker s p = Some m"
    and "getRowfromId s mid = Some (int (om_index mid (m_markerList s)))"
proof -
  from assms obtain m where m: "map_of (m_markerList s) mid = Some m" "time m = p"
    by (auto simp: positions_lookup)
  from marker_bounds(1)[OF assms(1) m(1)] have nn: "0 \<le> mid" .
  show "hasMarker s p" using assms(2) by (simp add: hasMarker_lookup)
  show "getIdFromPos s p = mid" using assms(2) by (simp add: getIdFromPos_def om_contains_def)
  show mi: "markerIdAtFrame s p = mid"
    using assms(2) by (simp add: markerIdAtFrame_def om_contains_def)
  show "\<exists>m. map_of (m_markerList s) mid = Some m \<and> time m = p \<and> marker s p = Some m"
    using m nn mi by (simp add: marker_def)
  show "getRowfromId s mid = Some (int (om_index mid (m_markerList s)))"
    using m by (simp add: getRowfromId_def)
qed

lemma unique_positions_consistent:
  assumes "consistent s"
  shows "unique_positions s"
proof -
  have "inj_on (\<lambda>e. time (snd e)) (set (m_markerList s))"
  proof (rule inj_onI)
    fix a b assume a: "a \<in> set (m_markerList s)" and b: "b \<in> set (m_markerList s)"
      and t: "time (snd a) = time (snd b)"
    from assms have dL: "distinct (map fst (m_markerList s))"
      by (simp add: consistent_def sorted_keys_distinct)
    from a dL have la: "map_of (m_markerList s) (fst a) = Some (snd a)" by simp
    from b dL have lb: "map_of (m_markerList s) (fst b) = Some (snd b)" by simp
    from la have "map_of (m_markerPositions s) (time (snd a)) = Some (fst a)"
      using positions_lookup[OF assms] by blast
    moreover from lb t have "map_of (m_markerPositions s) (time (snd a)) = Some (fst b)"
      using positions_lookup[OF assms] by simp
    ultimately have "fst a = fst b" by simp
    with la lb have "snd a = snd b" by simp
    with \<open>fst a = fst b\<close> show "a = b" by (simp add: prod_eq_iff)
  qed
  moreover from assms have "distinct (m_markerList s)"
    using sorted_keys_distinct[of "m_markerList s"] by (simp add: consistent_def distinct_map)
  ultimately show ?thesis
    by (simp add: unique_positions_def distinct_map)
qed

lemma pairs_iff:
  fixes P :: "(int \<times> int) list" and L :: "(int \<times> CommentedTime) list"
  assumes dP: "distinct (map fst P)" and dL: "distinct (map fst L)"
  shows "set (map (\<lambda>e. (snd e, fst e)) P) = set (map (\<lambda>e. (fst e, time (snd e))) L) \<longleftrightarrow>
         (\<forall>p mid. map_of P p = Some mid \<longleftrightarrow> (\<exists>m. map_of L mid = Some m \<and> time m = p))"
proof -
  have a: "(mid, p) \<in> set (map (\<lambda>e. (snd e, fst e)) P) \<longleftrightarrow> map_of P p = Some mid" for mid p
  proof -
    have "(mid, p) \<in> set (map (\<lambda>e. (snd e, fst e)) P) \<longleftrightarrow> (p, mid) \<in> set P" by force
    then show ?thesis using dP by simp
  qed
  have b: "(mid, p) \<in> set (map (\<lambda>e. (fst e, time (snd e))) L) \<longleftrightarrow>
           (\<exists>m. map_of L mid = Some m \<and> time m = p)" for mid p
  proof -
    have "(mid, p) \<in> set (map (\<lambda>e. (fst e, time (snd e))) L) \<longleftrightarrow>
          (\<exists>m. (mid, m) \<in> set L \<and> time m = p)" by force
    then show ?thesis using dL by simp
  qed
  show ?thesis
  proof
    assume eq: "set (map (\<lambda>e. (snd e, fst e)) P) = set (map (\<lambda>e. (fst e, time (snd e))) L)"
    show "\<forall>p mid. map_of P p = Some mid \<longleftrightarrow> (\<exists>m. map_of L mid = Some m \<and> time m = p)"
      using a b eq by metis
  next
    assume r: "\<forall>p mid. map_of P p = Some mid \<longleftrightarrow> (\<exists>m. map_of L mid = Some m \<and> time m = p)"
    have "x \<in> set (map (\<lambda>e. (snd e, fst e)) P) \<longleftrightarrow>
          x \<in> set (map (\<lambda>e. (fst e, time (snd e))) L)" for x
      using a[of "fst x" "snd x"] b[of "fst x" "snd x"] r by simp
    then show "set (map (\<lambda>e. (snd e, fst e)) P) = set (map (\<lambda>e. (fst e, time (snd e))) L)"
      by blast
  qed
qed

lemma bounds_iff:
  fixes L :: "(int \<times> CommentedTime) list"
  assumes dL: "distinct (map fst L)"
  shows "list_all (\<lambda>e. 0 \<le> fst e \<and> fst e < n \<and>
                        0 \<le> markerType (snd e) \<and> markerType (snd e) < markerTypes_size) L \<longleftrightarrow>
         (\<forall>mid m. map_of L mid = Some m \<longrightarrow>
            0 \<le> mid \<and> mid < n \<and> 0 \<le> markerType m \<and> markerType m < markerTypes_size)"
  using dL by (auto simp: list_all_iff)

lemma consistent_iff:
  "consistent s \<longleftrightarrow>
     sorted_wrt (<) (map fst (m_markerList s)) \<and>
     sorted_wrt (<) (map fst (m_markerPositions s)) \<and>
     (\<forall>p mid. map_of (m_markerPositions s) p = Some mid \<longleftrightarrow>
        (\<exists>m. map_of (m_markerList s) mid = Some m \<and> time m = p)) \<and>
     0 \<le> next_id s \<and>
     (\<forall>mid m. map_of (m_markerList s) mid = Some m \<longrightarrow>
        0 \<le> mid \<and> mid < next_id s \<and> 0 \<le> markerType m \<and> markerType m < markerTypes_size)"
  (is "?l \<longleftrightarrow> ?r")
proof
  assume ?l
  then have srt: "sorted_wrt (<) (map fst (m_markerList s))"
    "sorted_wrt (<) (map fst (m_markerPositions s))"
    by (simp_all add: consistent_def)
  from \<open>?l\<close> show ?r
    unfolding consistent_def
    using pairs_iff[OF sorted_keys_distinct[OF srt(2)] sorted_keys_distinct[OF srt(1)]]
      bounds_iff[OF sorted_keys_distinct[OF srt(1)], of "next_id s"]
    by blast
next
  assume ?r
  then have srt: "sorted_wrt (<) (map fst (m_markerList s))"
    "sorted_wrt (<) (map fst (m_markerPositions s))"
    by simp_all
  from \<open>?r\<close> show ?l
    unfolding consistent_def
    using pairs_iff[OF sorted_keys_distinct[OF srt(2)] sorted_keys_distinct[OF srt(1)]]
      bounds_iff[OF sorted_keys_distinct[OF srt(1)], of "next_id s"]
    by blast
qed

lemma consistent_erase:
  assumes c: "consistent s" and look: "map_of (m_markerPositions s) p = Some mid"
    and L: "m_markerList s' = om_erase mid (m_markerList s)"
    and P: "m_markerPositions s' = om_erase p (m_markerPositions s)"
    and n: "next_id s \<le> next_id s'"
  shows "consistent s'"
proof -
  from c have r: "sorted_wrt (<) (map fst (m_markerList s))"
    "sorted_wrt (<) (map fst (m_markerPositions s))"
    "\<And>p mid. map_of (m_markerPositions s) p = Some mid \<longleftrightarrow>
        (\<exists>m. map_of (m_markerList s) mid = Some m \<and> time m = p)"
    "0 \<le> next_id s"
    "\<And>mid m. map_of (m_markerList s) mid = Some m \<Longrightarrow>
        0 \<le> mid \<and> mid < next_id s \<and> 0 \<le> markerType m \<and> markerType m < markerTypes_size"
    unfolding consistent_iff by blast+
  have "map_of (m_markerPositions s') q = Some i \<longleftrightarrow>
        (\<exists>m. map_of (m_markerList s') i = Some m \<and> time m = q)" for q i
  proof (cases "q = p")
    case True
    have "\<not> (\<exists>m. i \<noteq> mid \<and> map_of (m_markerList s) i = Some m \<and> time m = p)"
      using r(3)[of p i] look by auto
    with True show ?thesis by (auto simp: L P map_of_om_erase)
  next
    case False
    have "map_of (m_markerPositions s) q = Some i \<Longrightarrow> i \<noteq> mid"
      using r(3)[of q i] r(3)[of p mid] look False by auto
    with False show ?thesis using r(3)[of q i] by (auto simp: L P map_of_om_erase)
  qed
  moreover have "0 \<le> i \<and> i < next_id s' \<and> 0 \<le> markerType m \<and> markerType m < markerTypes_size"
    if "map_of (m_markerList s') i = Some m" for i m
    using that r(5)[of i m] n by (auto simp: L map_of_om_erase split: if_splits)
  ultimately show ?thesis
    unfolding consistent_iff using r(1,2,4) n
    by (simp add: L P sorted_om_erase)
qed

lemma consistent_insert:
  assumes c: "consistent s" and free: "\<not> hasMarker s p"
    and ty: "0 \<le> ty" "ty < markerTypes_size"
    and L: "m_markerList s' =
              om_insert (next_id s) \<lparr>time = p, comment = cmt, markerType = ty\<rparr> (m_markerList s)"
    and P: "m_markerPositions s' = om_insert p (next_id s) (m_markerPositions s)"
    and n: "next_id s < next_id s'"
  shows "consistent s'"
proof -
  from c have r: "sorted_wrt (<) (map fst (m_markerList s))"
    "sorted_wrt (<) (map fst (m_markerPositions s))"
    "\<And>p mid. map_of (m_markerPositions s) p = Some mid \<longleftrightarrow>
        (\<exists>m. map_of (m_markerList s) mid = Some m \<and> time m = p)"
    "0 \<le> next_id s"
    "\<And>mid m. map_of (m_markerList s) mid = Some m \<Longrightarrow>
        0 \<le> mid \<and> mid < next_id s \<and> 0 \<le> markerType m \<and> markerType m < markerTypes_size"
    unfolding consistent_iff by blast+
  from free have none: "map_of (m_markerPositions s) p = None"
    by (simp add: hasMarker_def om_contains_def)
  have fresh: "map_of (m_markerList s) (next_id s) = None"
    using r(5)[of "next_id s"] by (cases "map_of (m_markerList s) (next_id s)") auto
  have "map_of (m_markerPositions s') q = Some i \<longleftrightarrow>
        (\<exists>m. map_of (m_markerList s') i = Some m \<and> time m = q)" for q i
  proof (cases "q = p")
    case True
    have "\<not> (\<exists>m. map_of (m_markerList s) i = Some m \<and> time m = p)"
      using r(3)[of p i] none by simp
    with True show ?thesis by (auto simp: L P map_of_om_insert)
  next
    case False
    have "map_of (m_markerPositions s) q = Some i \<Longrightarrow> i \<noteq> next_id s"
      using r(3)[of q i] fresh by auto
    with False show ?thesis using r(3)[of q i] by (auto simp: L P map_of_om_insert)
  qed
  moreover have "0 \<le> i \<and> i < next_id s' \<and> 0 \<le> markerType m \<and> markerType m < markerTypes_size"
    if "map_of (m_markerList s') i = Some m" for i m
    using that r(5)[of i m] r(4) n ty by (auto simp: L map_of_om_insert split: if_splits)
  ultimately show ?thesis
    unfolding consistent_iff using r(1,2,4) n
    by (simp add: L P sorted_om_insert)
qed

lemma consistent_change:
  assumes c: "consistent s" and look: "map_of (m_markerList s) mid = Some m"
    and tm: "time m' = time m" and ty: "0 \<le> markerType m'" "markerType m' < markerTypes_size"
    and L: "m_markerList s' = om_insert mid m' (m_markerList s)"
    and P: "m_markerPositions s' = m_markerPositions s"
    and n: "next_id s \<le> next_id s'"
  shows "consistent s'"
proof -
  from c have r: "sorted_wrt (<) (map fst (m_markerList s))"
    "sorted_wrt (<) (map fst (m_markerPositions s))"
    "\<And>p mid. map_of (m_markerPositions s) p = Some mid \<longleftrightarrow>
        (\<exists>m. map_of (m_markerList s) mid = Some m \<and> time m = p)"
    "0 \<le> next_id s"
    "\<And>mid m. map_of (m_markerList s) mid = Some m \<Longrightarrow>
        0 \<le> mid \<and> mid < next_id s \<and> 0 \<le> markerType m \<and> markerType m < markerTypes_size"
    unfolding consistent_iff by blast+
  have "map_of (m_markerPositions s') q = Some i \<longleftrightarrow>
        (\<exists>m. map_of (m_markerList s') i = Some m \<and> time m = q)" for q i
    using r(3)[of q i] look tm by (auto simp: L P map_of_om_insert)
  moreover have "0 \<le> i \<and> i < next_id s' \<and> 0 \<le> markerType m \<and> markerType m < markerTypes_size"
    if "map_of (m_markerList s') i = Some m" for i m
    using that r(5)[of i m] r(5)[OF look] n ty by (auto simp: L map_of_om_insert split: if_splits)
  ultimately show ?thesis
    unfolding consistent_iff using r(1,2,4) n
    by (simp add: L P sorted_om_insert)
qed

lemma consistent_move:
  assumes c: "consistent s" and look: "map_of (m_markerList s) mid = Some m"
    and free: "\<not> hasMarker s pos"
    and L: "m_markerList s' = om_insert mid (m\<lparr>time := pos\<rparr>) (m_markerList s)"
    and P: "m_markerPositions s' =
              om_insert pos mid (om_erase (time m) (m_markerPositions s))"
    and n: "next_id s \<le> next_id s'"
  shows "consistent s'"
proof -
  from c have r: "sorted_wrt (<) (map fst (m_markerList s))"
    "sorted_wrt (<) (map fst (m_markerPositions s))"
    "\<And>p mid. map_of (m_markerPositions s) p = Some mid \<longleftrightarrow>
        (\<exists>m. map_of (m_markerList s) mid = Some m \<and> time m = p)"
    "0 \<le> next_id s"
    "\<And>mid m. map_of (m_markerList s) mid = Some m \<Longrightarrow>
        0 \<le> mid \<and> mid < next_id s \<and> 0 \<le> markerType m \<and> markerType m < markerTypes_size"
    unfolding consistent_iff by blast+
  from free have none: "map_of (m_markerPositions s) pos = None"
    by (simp add: hasMarker_def om_contains_def)
  have old: "map_of (m_markerPositions s) (time m) = Some mid"
    using r(3)[of "time m" mid] look by simp
  have "map_of (m_markerPositions s') q = Some i \<longleftrightarrow>
        (\<exists>m. map_of (m_markerList s') i = Some m \<and> time m = q)" for q i
  proof (cases "q = pos")
    case True
    have "\<not> (\<exists>m. map_of (m_markerList s) i = Some m \<and> time m = pos)"
      using r(3)[of pos i] none by simp
    with True show ?thesis by (auto simp: L P map_of_om_insert map_of_om_erase)
  next
    case False
    show ?thesis
    proof (cases "q = time m")
      case True
      have "\<not> (\<exists>m'. i \<noteq> mid \<and> map_of (m_markerList s) i = Some m' \<and> time m' = time m)"
        using r(3)[of "time m" i] old by auto
      with True False show ?thesis by (auto simp: L P map_of_om_insert map_of_om_erase)
    next
      case neq: False
      have "map_of (m_markerPositions s) q = Some i \<Longrightarrow> i \<noteq> mid"
        using r(3)[of q i] look neq by auto
      with False neq show ?thesis using r(3)[of q i]
        by (auto simp: L P map_of_om_insert map_of_om_erase)
    qed
  qed
  moreover have "0 \<le> i \<and> i < next_id s' \<and> 0 \<le> markerType m \<and> markerType m < markerTypes_size"
    if "map_of (m_markerList s') i = Some m" for i m
    using that r(5)[of i m] r(5)[OF look] n by (auto simp: L map_of_om_insert split: if_splits)
  ultimately show ?thesis
    unfolding consistent_iff using r(1,2,4) n
    by (simp add: L P sorted_om_insert sorted_om_erase)
qed

section \<open>Facts about the primitive operations\<close>

lemma deleteMarker_lambda_eq:
  assumes "consistent s" and "map_of (m_markerPositions s) p = Some mid"
  shows "deleteMarker_lambda p s =
         Some (True,
           removeSnapPoint p
             (s\<lparr>m_markerList := om_erase mid (m_markerList s),
                m_markerPositions := om_erase p (m_markerPositions s),
                emitted := emitted s @
                  [RowsRemoved (int (om_index mid (m_markerList s)))
                     (int (om_index mid (m_markerList s)))]\<rparr>))"
  using lookup_queries(1,2,5)[OF assms] by (simp add: deleteMarker_lambda_def)

lemma addMarker_lambda_eq:
  assumes "\<not> hasMarker s p"
  shows "addMarker_lambda p cmt ty s =
         Some (True,
           addSnapPoint p
             (s\<lparr>m_markerList :=
                  om_insert (next_id s) \<lparr>time = p, comment = cmt, markerType = ty\<rparr>
                    (m_markerList s),
                m_markerPositions := om_insert p (next_id s) (m_markerPositions s),
                next_id := next_id s + 1,
                emitted := emitted s @
                  [RowsInserted (int (length (m_markerList s)))
                     (int (length (m_markerList s)))]\<rparr>))"
  using assms by (simp add: addMarker_lambda_def getNextId_def Let_def)

lemma changeComment_lambda_eq:
  assumes "consistent s" and "map_of (m_markerPositions s) p = Some mid"
    and "map_of (m_markerList s) mid = Some m"
  shows "changeComment_lambda p cmt ty s =
         Some (True,
           s\<lparr>m_markerList :=
               om_insert mid (m\<lparr>comment := cmt, markerType := ty\<rparr>) (m_markerList s),
             emitted := emitted s @
               [DataChanged (int (om_index mid (m_markerList s)))
                  (int (om_index mid (m_markerList s))) [CommentRole, ColorRole]]\<rparr>)"
  using lookup_queries(1,2,5)[OF assms(1,2)] assms(3) by (simp add: changeComment_lambda_def)

lemma removeMarker_ur_absent:
  "\<not> hasMarker s p \<Longrightarrow> removeMarker_ur p undo redo s = Some (False, undo, redo, s)"
  by (simp add: removeMarker_ur_def)

lemma removeMarker_ur_eq:
  assumes "consistent s" and "map_of (m_markerPositions s) p = Some mid"
    and "map_of (m_markerList s) mid = Some m"
  shows "removeMarker_ur p undo redo s =
         Some (True, AddMarker p (comment m) (markerType m) # undo, redo @ [DeleteMarker p],
           removeSnapPoint p
             (s\<lparr>m_markerList := om_erase mid (m_markerList s),
                m_markerPositions := om_erase p (m_markerPositions s),
                emitted := emitted s @
                  [RowsRemoved (int (om_index mid (m_markerList s)))
                     (int (om_index mid (m_markerList s)))]\<rparr>))"
proof -
  from lookup_queries(4)[OF assms(1,2)] assms(3) have "marker s p = Some m" by simp
  then show ?thesis
    using lookup_queries(1)[OF assms(1,2)] deleteMarker_lambda_eq[OF assms(1,2)]
    by (simp add: removeMarker_ur_def UPDATE_UNDO_REDO_def)
qed

lemma addMarker_ur_new:
  assumes "\<not> hasMarker s p"
    and "ty' = (if ty = - 1 then default_marker_type s else ty)"
    and "0 \<le> ty'" and "ty' < markerTypes_size"
  shows "addMarker_ur p cmt ty undo redo s =
         Some (True, DeleteMarker p # undo, redo @ [AddMarker p cmt ty'],
           addSnapPoint p
             (s\<lparr>m_markerList :=
                  om_insert (next_id s) \<lparr>time = p, comment = cmt, markerType = ty'\<rparr>
                    (m_markerList s),
                m_markerPositions := om_insert p (next_id s) (m_markerPositions s),
                next_id := next_id s + 1,
                emitted := emitted s @
                  [RowsInserted (int (length (m_markerList s)))
                     (int (length (m_markerList s)))]\<rparr>))"
  using assms addMarker_lambda_eq[OF assms(1)]
  by (simp add: addMarker_ur_def UPDATE_UNDO_REDO_def Let_def)

lemma addMarker_ur_rename:
  assumes "consistent s" and "map_of (m_markerPositions s) p = Some mid"
    and "map_of (m_markerList s) mid = Some m"
    and "ty' = (if ty = - 1 then default_marker_type s else ty)"
    and "0 \<le> ty'" and "ty' < markerTypes_size"
  shows "addMarker_ur p cmt ty undo redo s =
         Some (True, ChangeComment p (comment m) (markerType m) # undo,
           redo @ [ChangeComment p cmt ty'],
           s\<lparr>m_markerList :=
               om_insert mid (m\<lparr>comment := cmt, markerType := ty'\<rparr>) (m_markerList s),
             emitted := emitted s @
               [DataChanged (int (om_index mid (m_markerList s)))
                  (int (om_index mid (m_markerList s))) [CommentRole, ColorRole]]\<rparr>)"
proof -
  from lookup_queries(4)[OF assms(1,2)] assms(3) have "marker s p = Some m" by simp
  then show ?thesis
    using lookup_queries(1)[OF assms(1,2)] changeComment_lambda_eq[OF assms(1-3)] assms(4-6)
    by (simp add: addMarker_ur_def UPDATE_UNDO_REDO_def Let_def)
qed

lemma lambdas_True:
  "changeComment_lambda p cmt ty s = Some (r, s') \<Longrightarrow> r"
  "addMarker_lambda p cmt ty s = Some (r, s') \<Longrightarrow> r"
  "deleteMarker_lambda p s = Some (r, s') \<Longrightarrow> r"
  by (auto simp: changeComment_lambda_def addMarker_lambda_def deleteMarker_lambda_def Let_def
      split: if_splits option.splits prod.splits)

lemma run_prim_True: "run_prim p s = Some (r, s') \<Longrightarrow> r"
  by (cases p) (auto dest: lambdas_True)

lemma addMarker_ur_True: "addMarker_ur p cmt ty undo redo s = Some (r, u, d, s') \<Longrightarrow> r"
  by (auto simp: addMarker_ur_def Let_def UPDATE_UNDO_REDO_def
      split: if_splits option.splits prod.splits dest: lambdas_True)

lemma addMarker_True: "addMarker p cmt ty s = Some (r, s') \<Longrightarrow> r"
  by (auto simp: addMarker_def Let_def split: if_splits option.splits prod.splits
      dest: addMarker_ur_True)

lemma filter_unique:
  "distinct (map f xs) \<Longrightarrow> x \<in> set xs \<Longrightarrow> filter (\<lambda>e. f e = f x) xs = [x]"
proof (induction xs)
  case Nil
  then show ?case by simp
next
  case (Cons a xs)
  show ?case
  proof (cases "a = x")
    case True
    with Cons.prems have "\<forall>e\<in>set xs. f e \<noteq> f x" by (auto simp: image_iff)
    then have "filter (\<lambda>e. f e = f x) xs = []" by (simp add: filter_empty_conv)
    with True show ?thesis by simp
  next
    case False
    with Cons.prems have "x \<in> set xs" and "f a \<noteq> f x" by (auto simp: image_iff)
    with Cons show ?thesis by simp
  qed
qed

lemma om_erase_by_time:
  assumes "consistent s" and "map_of (m_markerPositions s) p = Some mid"
  shows "om_erase mid (m_markerList s) = filter (\<lambda>e. time (snd e) \<noteq> p) (m_markerList s)"
proof -
  from assms(1) have dL: "distinct (map fst (m_markerList s))"
    by (simp add: consistent_def sorted_keys_distinct)
  have "fst e \<noteq> mid \<longleftrightarrow> time (snd e) \<noteq> p" if "e \<in> set (m_markerList s)" for e
  proof -
    from that dL have "map_of (m_markerList s) (fst e) = Some (snd e)" by simp
    then have "map_of (m_markerPositions s) (time (snd e)) = Some (fst e)"
      using positions_lookup[OF assms(1)] by blast
    moreover from assms obtain m where "map_of (m_markerList s) mid = Some m" "time m = p"
      using positions_lookup[OF assms(1)] by blast
    ultimately show ?thesis
      using assms(2) \<open>map_of (m_markerList s) (fst e) = Some (snd e)\<close> by auto
  qed
  then show ?thesis unfolding om_erase_def by (intro filter_cong) auto
qed

section \<open>Moving, removing and renaming a marker\<close>

lemma map_of_store_put:
  "map_of (store_put r v h) r' =
     (if r' = r then map_option (\<lambda>_. v) (map_of h r) else map_of h r')"
  by (induction h) (auto simp: store_put_def)

lemma notify_snaps_valid:
  "fst (notify_snaps c rs h) = filter (\<lambda>r. map_of h r \<noteq> None) rs"
proof (induction rs arbitrary: h)
  case Nil
  show ?case by simp
next
  case (Cons r rs)
  show ?case
  proof (cases "map_of h r")
    case None
    with Cons show ?thesis by simp
  next
    case (Some calls)
    have "(map_of (store_put r (calls @ [c]) h) x \<noteq> None) = (map_of h x \<noteq> None)" for x
      using Some by (simp add: map_of_store_put)
    with Some Cons[of "store_put r (calls @ [c]) h"] show ?thesis
      by (simp add: case_prod_beta)
  qed
qed

lemma notify_snaps_store:
  "map_of (snd (notify_snaps c rs h)) x =
     map_option (\<lambda>calls. calls @ replicate (count_list rs x) c) (map_of h x)"
proof (induction rs arbitrary: h)
  case Nil
  show ?case by (simp add: option.map_ident)
next
  case (Cons r rs)
  show ?case
  proof (cases "map_of h r")
    case None
    with Cons[of h] show ?thesis by (cases "x = r") simp_all
  next
    case (Some calls)
    with Cons[of "store_put r (calls @ [c]) h"] show ?thesis
      by (cases "map_of h x")
        (auto simp: map_of_store_put replicate_append_same case_prod_beta)
  qed
qed

lemma removeSnapPoint_snaps:
  "m_registeredSnaps (removeSnapPoint p s) =
     filter (\<lambda>r. map_of (snap_store s) r \<noteq> None) (m_registeredSnaps s)"
  "map_of (snap_store (removeSnapPoint p s)) x =
     map_option (\<lambda>calls. calls @ replicate (count_list (m_registeredSnaps s) x) (RemovePoint p))
       (map_of (snap_store s) x)"
  using notify_snaps_valid[of "RemovePoint p" "m_registeredSnaps s" "snap_store s"]
    notify_snaps_store[of "RemovePoint p" "m_registeredSnaps s" "snap_store s" x]
  by (simp_all add: removeSnapPoint_def case_prod_beta)

lemma addSnapPoint_snaps:
  "m_registeredSnaps (addSnapPoint p s) =
     filter (\<lambda>r. map_of (snap_store s) r \<noteq> None) (m_registeredSnaps s)"
  "map_of (snap_store (addSnapPoint p s)) x =
     map_option (\<lambda>calls. calls @ replicate (count_list (m_registeredSnaps s) x) (AddPoint p))
       (map_of (snap_store s) x)"
  using notify_snaps_valid[of "AddPoint p" "m_registeredSnaps s" "snap_store s"]
    notify_snaps_store[of "AddPoint p" "m_registeredSnaps s" "snap_store s" x]
  by (simp_all add: addSnapPoint_def case_prod_beta)

lemma consistent_two_markers: "consistent two_markers"
  by (simp add: consistent_def two_markers_def markerTypes_size_def)

lemma consistent_no_markers: "consistent no_markers"
  by (simp add: consistent_def no_markers_def)

text \<open>
  Claim C10. In a consistent list holding a marker with id \<open>mid\<close>, \<^verbatim>\<open>moveMarker(mid, pos)\<close>
  returns false and leaves the state as it is when a marker exists at \<open>pos\<close>. Otherwise
  it returns true; the marker keeps its id, its comment and its type and has the time
  \<open>pos\<close>; every other marker and the order of the storage are as before; the position
  index maps \<open>pos\<close> to \<open>mid\<close>, no longer has the old position, and is unchanged elsewhere;
  the list is consistent again.
\<close>

theorem moveMarker_collision_or_move:
  assumes "consistent s" and "map_of (m_markerList s) mid = Some m"
  shows "(hasMarker s pos \<longrightarrow> moveMarker mid pos s = Some (False, s)) \<and>
         (\<not> hasMarker s pos \<longrightarrow>
            (\<exists>s'. moveMarker mid pos s = Some (True, s') \<and>
               map_of (m_markerList s') mid = Some (m\<lparr>time := pos\<rparr>) \<and>
               (\<forall>i. i \<noteq> mid \<longrightarrow> map_of (m_markerList s') i = map_of (m_markerList s) i) \<and>
               map fst (m_markerList s') = map fst (m_markerList s) \<and>
               map_of (m_markerPositions s') pos = Some mid \<and>
               map_of (m_markerPositions s') (time m) = None \<and>
               (\<forall>q. q \<noteq> pos \<longrightarrow> q \<noteq> time m \<longrightarrow>
                  map_of (m_markerPositions s') q = map_of (m_markerPositions s) q) \<and>
               consistent s'))"
proof (intro conjI impI)
  assume "hasMarker s pos"
  with assms(2) show "moveMarker mid pos s = Some (False, s)"
    by (simp add: moveMarker_def)
next
  assume free: "\<not> hasMarker s pos"
  let ?s' = "s\<lparr>m_markerList := om_insert mid (m\<lparr>time := pos\<rparr>) (m_markerList s),
               m_markerPositions := om_insert pos mid (om_erase (time m) (m_markerPositions s)),
               emitted := emitted s @
                 [DataChanged (int (om_index mid (m_markerList s)))
                    (int (om_index mid (m_markerList s))) [FrameRole]]\<rparr>"
  from assms have old: "map_of (m_markerPositions s) (time m) = Some mid"
    by (simp add: positions_lookup)
  with free have neq: "time m \<noteq> pos"
    by (auto simp: hasMarker_lookup)
  from assms(1) have srt: "sorted_wrt (<) (map fst (m_markerList s))"
    by (simp add: consistent_def)
  have "moveMarker mid pos s = Some (True, ?s')"
    using assms(2) free by (simp add: moveMarker_def getRowfromId_def)
  moreover have "consistent ?s'"
    by (rule consistent_move[OF assms free]) simp_all
  moreover have "map fst (m_markerList ?s') = map fst (m_markerList s)"
    using keys_om_insert_existing[OF srt assms(2)] by simp
  ultimately show "\<exists>s'. moveMarker mid pos s = Some (True, s') \<and>
       map_of (m_markerList s') mid = Some (m\<lparr>time := pos\<rparr>) \<and>
       (\<forall>i. i \<noteq> mid \<longrightarrow> map_of (m_markerList s') i = map_of (m_markerList s) i) \<and>
       map fst (m_markerList s') = map fst (m_markerList s) \<and>
       map_of (m_markerPositions s') pos = Some mid \<and>
       map_of (m_markerPositions s') (time m) = None \<and>
       (\<forall>q. q \<noteq> pos \<longrightarrow> q \<noteq> time m \<longrightarrow>
          map_of (m_markerPositions s') q = map_of (m_markerPositions s) q) \<and>
       consistent s'"
    using neq by (intro exI[of _ ?s']) (simp add: map_of_om_insert map_of_om_erase)
qed

theorem moveMarker_collision_or_move_witness:
  "consistent two_markers \<and>
   map_of (m_markerList two_markers) 0 = Some \<lparr>time = 10, comment = ''a'', markerType = 0\<rparr> \<and>
   hasMarker two_markers 20 \<and>
   moveMarker 0 20 two_markers = Some (False, two_markers) \<and>
   \<not> hasMarker two_markers 30 \<and>
   map_option fst (moveMarker 0 30 two_markers) = Some True \<and>
   map_option (m_markerList \<circ> snd) (moveMarker 0 30 two_markers) =
     Some [(0, \<lparr>time = 30, comment = ''a'', markerType = 0\<rparr>),
           (1, \<lparr>time = 20, comment = ''b'', markerType = 1\<rparr>)] \<and>
   map_option (m_markerPositions \<circ> snd) (moveMarker 0 30 two_markers) =
     Some [(20, 1), (30, 0)]"
proof -
  have c: "consistent two_markers" by (rule consistent_two_markers)
  have l: "map_of (m_markerList two_markers) 0 =
           Some \<lparr>time = 10, comment = ''a'', markerType = 0\<rparr>"
    by (simp add: two_markers_def)
  show ?thesis
    using moveMarker_collision_or_move[OF c l, of 20]
      moveMarker_collision_or_move[OF c l, of 30] c l
    by (simp add: two_markers_def hasMarker_def om_contains_def moveMarker_def
        getRowfromId_def om_erase_def)
qed

text \<open>
  Claim C6. In a consistent list, \<^verbatim>\<open>removeMarker(time)\<close> returns false and changes
  nothing when no marker exists at the time. When one exists (and the undo stack is
  alive) it returns true; the storage and the position index lose exactly the entry of
  that time; the registered snap consumers that have expired are dropped and every live
  one has received \<^verbatim>\<open>removePoint(time)\<close>, once for each time it is registered, after
  the calls it had received before; the list is consistent again.
\<close>

theorem removeMarker_result:
  assumes "consistent s"
  shows "(\<not> hasMarker s t \<longrightarrow> removeMarker t s = Some (False, s)) \<and>
         (hasMarker s t \<longrightarrow> m_undoStack s \<noteq> None \<longrightarrow>
            (\<exists>s'. removeMarker t s = Some (True, s') \<and>
               m_markerList s' = filter (\<lambda>e. time (snd e) \<noteq> t) (m_markerList s) \<and>
               m_markerPositions s' = filter (\<lambda>e. fst e \<noteq> t) (m_markerPositions s) \<and>
               \<not> hasMarker s' t \<and>
               m_registeredSnaps s' =
                 filter (\<lambda>r. map_of (snap_store s) r \<noteq> None) (m_registeredSnaps s) \<and>
               (\<forall>r. map_of (snap_store s') r =
                  map_option
                    (\<lambda>calls. calls @ replicate (count_list (m_registeredSnaps s) r) (RemovePoint t))
                    (map_of (snap_store s) r)) \<and>
               consistent s'))"
proof (intro conjI impI)
  assume "\<not> hasMarker s t"
  then show "removeMarker t s = Some (False, s)"
    by (simp add: removeMarker_def removeMarker_ur_absent)
next
  assume has: "hasMarker s t" and "m_undoStack s \<noteq> None"
  then obtain stack where stack: "m_undoStack s = Some stack" by auto
  from has obtain mid where look: "map_of (m_markerPositions s) t = Some mid"
    by (auto simp: hasMarker_lookup)
  with assms obtain m where m: "map_of (m_markerList s) mid = Some m"
    by (auto simp: positions_lookup)
  let ?s1 = "removeSnapPoint t
               (s\<lparr>m_markerList := om_erase mid (m_markerList s),
                  m_markerPositions := om_erase t (m_markerPositions s),
                  emitted := emitted s @
                    [RowsRemoved (int (om_index mid (m_markerList s)))
                       (int (om_index mid (m_markerList s)))]\<rparr>)"
  let ?s' = "?s1\<lparr>m_undoStack :=
               Some (stack @
                 [\<lparr>cmd_undo = [AddMarker t (comment m) (markerType m)],
                   cmd_redo = [DeleteMarker t],
                   cmd_text = (if m_guide s then ''Delete guide'' else ''Delete marker'')\<rparr>])\<rparr>"
  have run: "removeMarker t s = Some (True, ?s')"
    using removeMarker_ur_eq[OF assms look m, of "[]" "[]"] stack
    by (simp add: removeMarker_def PUSH_UNDO_def)
  have c: "consistent ?s'"
    by (rule consistent_erase[OF assms look]) simp_all
  have nh: "\<not> hasMarker ?s' t"
    by (simp add: hasMarker_def om_contains_def map_of_om_erase)
  have L: "m_markerList ?s' = filter (\<lambda>e. time (snd e) \<noteq> t) (m_markerList s)"
    using om_erase_by_time[OF assms look] by simp
  have P: "m_markerPositions ?s' = filter (\<lambda>e. fst e \<noteq> t) (m_markerPositions s)"
    by (simp add: om_erase_def)
  have R: "m_registeredSnaps ?s' =
           filter (\<lambda>r. map_of (snap_store s) r \<noteq> None) (m_registeredSnaps s)"
    by (simp add: removeSnapPoint_snaps)
  have S: "\<forall>r. map_of (snap_store ?s') r =
             map_option
               (\<lambda>calls. calls @ replicate (count_list (m_registeredSnaps s) r) (RemovePoint t))
               (map_of (snap_store s) r)"
    by (simp add: removeSnapPoint_snaps)
  from run c nh L P R S
  show "\<exists>s'. removeMarker t s = Some (True, s') \<and>
          m_markerList s' = filter (\<lambda>e. time (snd e) \<noteq> t) (m_markerList s) \<and>
          m_markerPositions s' = filter (\<lambda>e. fst e \<noteq> t) (m_markerPositions s) \<and>
          \<not> hasMarker s' t \<and>
          m_registeredSnaps s' =
            filter (\<lambda>r. map_of (snap_store s) r \<noteq> None) (m_registeredSnaps s) \<and>
          (\<forall>r. map_of (snap_store s') r =
             map_option
               (\<lambda>calls. calls @ replicate (count_list (m_registeredSnaps s) r) (RemovePoint t))
               (map_of (snap_store s) r)) \<and>
          consistent s'"
    by (intro exI[of _ ?s']) (simp only: simp_thms)
qed

theorem removeMarker_result_witness:
  "consistent two_markers \<and>
   \<not> hasMarker two_markers 15 \<and>
   removeMarker 15 two_markers = Some (False, two_markers) \<and>
   hasMarker two_markers 10 \<and>
   m_undoStack two_markers \<noteq> None \<and>
   map_option fst (removeMarker 10 two_markers) = Some True \<and>
   map_option (m_markerList \<circ> snd) (removeMarker 10 two_markers) =
     Some [(1, \<lparr>time = 20, comment = ''b'', markerType = 1\<rparr>)] \<and>
   map_option (m_markerPositions \<circ> snd) (removeMarker 10 two_markers) = Some [(20, 1)] \<and>
   map_option (m_registeredSnaps \<circ> snd) (removeMarker 10 two_markers) = Some [0] \<and>
   map_option (snap_store \<circ> snd) (removeMarker 10 two_markers) =
     Some [(0, [AddPoint 10, AddPoint 20, RemovePoint 10])]"
proof -
  have c: "consistent two_markers" by (rule consistent_two_markers)
  show ?thesis
    using removeMarker_result[OF c, of 15] removeMarker_result[OF c, of 10] c
    by (simp add: two_markers_def hasMarker_def om_contains_def removeMarker_def
        removeMarker_ur_def marker_def markerIdAtFrame_def deleteMarker_lambda_def
        getIdFromPos_def getRowfromId_def removeSnapPoint_def store_put_def om_erase_def
        UPDATE_UNDO_REDO_def PUSH_UNDO_def)
qed

text \<open>
  Claim C3. In a consistent list with a marker at \<open>t\<close> (the undo stack being alive and
  the type, or the default type that \<open>-1\<close> stands for, being an index into the palette),
  \<^verbatim>\<open>addMarker(t, comment, type)\<close> returns true and overwrites that marker in place: the
  ids of the storage and the position index are as before, every other marker is
  untouched, exactly one marker has the time \<open>t\<close> and it carries the new comment and
  type, and the command pushed on the undo stack is labelled "Rename guide" for guides
  and "Rename marker" for clip markers. In no state at all does \<^verbatim>\<open>addMarker\<close> return
  false: the primitive closures it runs always return true.
\<close>

theorem addMarker_existing_renames:
  assumes "consistent s" and "hasMarker s t" and "m_undoStack s = Some stack"
    and "ty' = (if ty = - 1 then default_marker_type s else ty)"
    and "0 \<le> ty'" and "ty' < markerTypes_size"
  shows "(\<exists>s' mid old.
            addMarker t cmt ty s = Some (True, s') \<and>
            map_of (m_markerPositions s) t = Some mid \<and>
            map_of (m_markerList s) mid = Some old \<and>
            map fst (m_markerList s') = map fst (m_markerList s) \<and>
            m_markerPositions s' = m_markerPositions s \<and>
            (\<forall>i. i \<noteq> mid \<longrightarrow> map_of (m_markerList s') i = map_of (m_markerList s) i) \<and>
            filter (\<lambda>e. time (snd e) = t) (m_markerList s') =
              [(mid, \<lparr>time = t, comment = cmt, markerType = ty'\<rparr>)] \<and>
            m_undoStack s' =
              Some (stack @
                [\<lparr>cmd_undo = [ChangeComment t (comment old) (markerType old)],
                  cmd_redo = [ChangeComment t cmt ty'],
                  cmd_text = (if m_guide s then ''Rename guide'' else ''Rename marker'')\<rparr>]) \<and>
            consistent s') \<and>
         (\<forall>t0 cmt0 ty0 s0 s1. addMarker t0 cmt0 ty0 s0 \<noteq> Some (False, s1))"
proof
  from assms(2) obtain mid where look: "map_of (m_markerPositions s) t = Some mid"
    by (auto simp: hasMarker_lookup)
  with assms(1) obtain old where old: "map_of (m_markerList s) mid = Some old" "time old = t"
    by (auto simp: positions_lookup)
  let ?new = "old\<lparr>comment := cmt, markerType := ty'\<rparr>"
  let ?s1 = "s\<lparr>m_markerList := om_insert mid ?new (m_markerList s),
               emitted := emitted s @
                 [DataChanged (int (om_index mid (m_markerList s)))
                    (int (om_index mid (m_markerList s))) [CommentRole, ColorRole]]\<rparr>"
  let ?s' = "?s1\<lparr>m_undoStack :=
               Some (stack @
                 [\<lparr>cmd_undo = [ChangeComment t (comment old) (markerType old)],
                   cmd_redo = [ChangeComment t cmt ty'],
                   cmd_text = (if m_guide s then ''Rename guide'' else ''Rename marker'')\<rparr>])\<rparr>"
  from assms(1) have srt: "sorted_wrt (<) (map fst (m_markerList s))"
    by (simp add: consistent_def)
  have run: "addMarker t cmt ty s = Some (True, ?s')"
    using addMarker_ur_rename[OF assms(1) look old(1) assms(4-6), of cmt "[]" "[]"]
      assms(2,3)
    by (simp add: addMarker_def PUSH_UNDO_def)
  have c: "consistent ?s'"
    by (rule consistent_change[OF assms(1) old(1), of ?new]) (simp_all add: assms(5,6))
  have keys: "map fst (m_markerList ?s') = map fst (m_markerList s)"
    using keys_om_insert_existing[OF srt old(1)] by simp
  have new_eq: "?new = \<lparr>time = t, comment = cmt, markerType = ty'\<rparr>"
    using old(2) by simp
  have mem: "(mid, ?new) \<in> set (m_markerList ?s')"
    by (rule map_of_SomeD) (simp add: map_of_om_insert)
  have "filter (\<lambda>e. time (snd e) = time (snd (mid, ?new))) (m_markerList ?s') = [(mid, ?new)]"
    using unique_positions_consistent[OF c] mem
    unfolding unique_positions_def by (rule filter_unique)
  then have one: "filter (\<lambda>e. time (snd e) = t) (m_markerList ?s') =
                  [(mid, \<lparr>time = t, comment = cmt, markerType = ty'\<rparr>)]"
    using old(2) by simp
  have others: "\<forall>i. i \<noteq> mid \<longrightarrow> map_of (m_markerList ?s') i = map_of (m_markerList s) i"
    by (simp add: map_of_om_insert)
  have P: "m_markerPositions ?s' = m_markerPositions s" by simp
  have U: "m_undoStack ?s' =
           Some (stack @
             [\<lparr>cmd_undo = [ChangeComment t (comment old) (markerType old)],
               cmd_redo = [ChangeComment t cmt ty'],
               cmd_text = (if m_guide s then ''Rename guide'' else ''Rename marker'')\<rparr>])"
    by simp
  from run look old(1) keys P others one U c
  show "\<exists>s' mid old.
          addMarker t cmt ty s = Some (True, s') \<and>
          map_of (m_markerPositions s) t = Some mid \<and>
          map_of (m_markerList s) mid = Some old \<and>
          map fst (m_markerList s') = map fst (m_markerList s) \<and>
          m_markerPositions s' = m_markerPositions s \<and>
          (\<forall>i. i \<noteq> mid \<longrightarrow> map_of (m_markerList s') i = map_of (m_markerList s) i) \<and>
          filter (\<lambda>e. time (snd e) = t) (m_markerList s') =
            [(mid, \<lparr>time = t, comment = cmt, markerType = ty'\<rparr>)] \<and>
          m_undoStack s' =
            Some (stack @
              [\<lparr>cmd_undo = [ChangeComment t (comment old) (markerType old)],
                cmd_redo = [ChangeComment t cmt ty'],
                cmd_text = (if m_guide s then ''Rename guide'' else ''Rename marker'')\<rparr>]) \<and>
          consistent s'"
    by (intro exI[of _ ?s'] exI[of _ mid] exI[of _ old]) (simp only: simp_thms)
next
  show "\<forall>t0 cmt0 ty0 s0 s1. addMarker t0 cmt0 ty0 s0 \<noteq> Some (False, s1)"
    using addMarker_True by blast
qed

theorem addMarker_existing_renames_witness:
  "consistent two_markers \<and> hasMarker two_markers 20 \<and> m_undoStack two_markers = Some [] \<and>
   (1::int) = (if (1::int) = - 1 then default_marker_type two_markers else 1) \<and>
   (0::int) \<le> 1 \<and> 1 < markerTypes_size \<and>
   map_option fst (addMarker 20 ''B'' 1 two_markers) = Some True \<and>
   map_option (m_markerList \<circ> snd) (addMarker 20 ''B'' 1 two_markers) =
     Some [(0, \<lparr>time = 10, comment = ''a'', markerType = 0\<rparr>),
           (1, \<lparr>time = 20, comment = ''B'', markerType = 1\<rparr>)] \<and>
   map_option (map cmd_text) (m_undoStack (snd (the (addMarker 20 ''B'' 1 two_markers)))) =
     Some [''Rename marker'']"
proof -
  have c: "consistent two_markers" by (rule consistent_two_markers)
  have h: "hasMarker two_markers 20" by (simp add: two_markers_def hasMarker_def om_contains_def)
  have u: "m_undoStack two_markers = Some []" by (simp add: two_markers_def)
  have t: "(1::int) = (if (1::int) = - 1 then default_marker_type two_markers else 1)" by simp
  have b: "(0::int) \<le> 1" "1 < markerTypes_size" by (simp_all add: markerTypes_size_def)
  show ?thesis
    using addMarker_existing_renames[OF c h u t b, of "''B''"] c h u b
    by (simp add: two_markers_def hasMarker_def om_contains_def addMarker_def
        addMarker_ur_def marker_def markerIdAtFrame_def changeComment_lambda_def
        getIdFromPos_def getRowfromId_def markerTypes_size_def
        UPDATE_UNDO_REDO_def PUSH_UNDO_def)
qed

section \<open>Editing a marker\<close>

lemma hasMarker_iff_time:
  assumes "consistent s"
  shows "hasMarker s p \<longleftrightarrow> p \<in> time ` snd ` set (m_markerList s)"
proof -
  from assms have dL: "distinct (map fst (m_markerList s))"
    by (simp add: consistent_def sorted_keys_distinct)
  have "hasMarker s p \<longleftrightarrow> (\<exists>mid m. map_of (m_markerList s) mid = Some m \<and> time m = p)"
    using positions_lookup[OF assms] by (simp add: hasMarker_lookup)
  also have "\<dots> \<longleftrightarrow> (\<exists>mid m. (mid, m) \<in> set (m_markerList s) \<and> time m = p)"
    using dL by simp
  also have "\<dots> \<longleftrightarrow> p \<in> time ` snd ` set (m_markerList s)"
    by force
  finally show ?thesis .
qed

lemma marker_iff_member:
  assumes "consistent s"
  shows "hasMarker s p \<and> marker s p = Some m \<longleftrightarrow> m \<in> snd ` set (m_markerList s) \<and> time m = p"
proof
  assume a: "hasMarker s p \<and> marker s p = Some m"
  then obtain mid where look: "map_of (m_markerPositions s) p = Some mid"
    by (auto simp: hasMarker_lookup)
  from lookup_queries(4)[OF assms look] a
  have "map_of (m_markerList s) mid = Some m" "time m = p" by auto
  then show "m \<in> snd ` set (m_markerList s) \<and> time m = p"
    by (force dest: map_of_SomeD)
next
  assume a: "m \<in> snd ` set (m_markerList s) \<and> time m = p"
  then obtain mid where mem: "(mid, m) \<in> set (m_markerList s)" by auto
  from assms have dL: "distinct (map fst (m_markerList s))"
    by (simp add: consistent_def sorted_keys_distinct)
  with mem have lm: "map_of (m_markerList s) mid = Some m" by simp
  with a have look: "map_of (m_markerPositions s) p = Some mid"
    using positions_lookup[OF assms] by blast
  from lookup_queries(1,4)[OF assms look] lm
  show "hasMarker s p \<and> marker s p = Some m" by simp
qed

lemma removeMarker_ur_effect:
  assumes "consistent s" and "hasMarker s p"
  shows "\<exists>s' cur. marker s p = Some cur \<and>
           removeMarker_ur p undo redo s =
             Some (True, AddMarker p (comment cur) (markerType cur) # undo,
                   redo @ [DeleteMarker p], s') \<and>
           consistent s' \<and>
           snd ` set (m_markerList s') = {m \<in> snd ` set (m_markerList s). time m \<noteq> p} \<and>
           m_guide s' = m_guide s \<and> m_undoStack s' = m_undoStack s \<and>
           default_marker_type s' = default_marker_type s"
proof -
  from assms(2) obtain mid where look: "map_of (m_markerPositions s) p = Some mid"
    by (auto simp: hasMarker_lookup)
  from lookup_queries(4)[OF assms(1) look] obtain cur
    where cur: "map_of (m_markerList s) mid = Some cur" "marker s p = Some cur" by auto
  let ?s' = "removeSnapPoint p
               (s\<lparr>m_markerList := om_erase mid (m_markerList s),
                  m_markerPositions := om_erase p (m_markerPositions s),
                  emitted := emitted s @
                    [RowsRemoved (int (om_index mid (m_markerList s)))
                       (int (om_index mid (m_markerList s)))]\<rparr>)"
  have c: "consistent ?s'"
    by (rule consistent_erase[OF assms(1) look]) simp_all
  have "m_markerList ?s' = filter (\<lambda>e. time (snd e) \<noteq> p) (m_markerList s)"
    using om_erase_by_time[OF assms(1) look] by simp
  then have "snd ` set (m_markerList ?s') = {m \<in> snd ` set (m_markerList s). time m \<noteq> p}"
    by (simp only: set_filter) force
  with c cur(2) removeMarker_ur_eq[OF assms(1) look cur(1), of undo redo]
  show ?thesis
    by (intro exI[of _ ?s'] exI[of _ cur]) simp
qed

lemma addMarker_ur_effect:
  assumes "consistent s"
    and "ty' = (if ty = - 1 then default_marker_type s else ty)"
    and "0 \<le> ty'" and "ty' < markerTypes_size"
  shows "\<exists>s' u. addMarker_ur p cmt ty undo redo s =
             Some (True, u # undo,
               redo @ [if hasMarker s p then ChangeComment p cmt ty' else AddMarker p cmt ty'],
               s') \<and>
           consistent s' \<and>
           snd ` set (m_markerList s') =
             insert \<lparr>time = p, comment = cmt, markerType = ty'\<rparr>
               {m \<in> snd ` set (m_markerList s). time m \<noteq> p} \<and>
           m_guide s' = m_guide s \<and> m_undoStack s' = m_undoStack s \<and>
           default_marker_type s' = default_marker_type s"
proof (cases "hasMarker s p")
  case True
  then obtain mid where look: "map_of (m_markerPositions s) p = Some mid"
    by (auto simp: hasMarker_lookup)
  from lookup_queries(4)[OF assms(1) look] obtain old
    where old: "map_of (m_markerList s) mid = Some old" "time old = p" by auto
  let ?new = "old\<lparr>comment := cmt, markerType := ty'\<rparr>"
  let ?s' = "s\<lparr>m_markerList := om_insert mid ?new (m_markerList s),
               emitted := emitted s @
                 [DataChanged (int (om_index mid (m_markerList s)))
                    (int (om_index mid (m_markerList s))) [CommentRole, ColorRole]]\<rparr>"
  from assms(1) have srt: "sorted_wrt (<) (map fst (m_markerList s))"
    by (simp add: consistent_def)
  have c: "consistent ?s'"
    by (rule consistent_change[OF assms(1) old(1), of ?new]) (simp_all add: assms(3,4))
  have "set (om_erase mid (m_markerList s)) =
        set (filter (\<lambda>e. time (snd e) \<noteq> p) (m_markerList s))"
    using om_erase_by_time[OF assms(1) look] by simp
  then have "{e \<in> set (m_markerList s). fst e \<noteq> mid} =
             {e \<in> set (m_markerList s). time (snd e) \<noteq> p}"
    by (simp add: set_om_erase)
  then have "set (m_markerList ?s') =
             insert (mid, ?new) {e \<in> set (m_markerList s). time (snd e) \<noteq> p}"
    using set_om_insert[OF srt, of mid ?new] by simp
  then have "snd ` set (m_markerList ?s') =
             insert ?new {m \<in> snd ` set (m_markerList s). time m \<noteq> p}"
    by force
  moreover have "?new = \<lparr>time = p, comment = cmt, markerType = ty'\<rparr>"
    using old(2) by simp
  ultimately show ?thesis
    using True c addMarker_ur_rename[OF assms(1) look old(1) assms(2-4), of cmt undo redo]
    by (intro exI[of _ ?s'] exI[of _ "ChangeComment p (comment old) (markerType old)"]) simp
next
  case False
  let ?new = "\<lparr>time = p, comment = cmt, markerType = ty'\<rparr>"
  let ?s' = "addSnapPoint p
               (s\<lparr>m_markerList := om_insert (next_id s) ?new (m_markerList s),
                  m_markerPositions := om_insert p (next_id s) (m_markerPositions s),
                  next_id := next_id s + 1,
                  emitted := emitted s @
                    [RowsInserted (int (length (m_markerList s)))
                       (int (length (m_markerList s)))]\<rparr>)"
  from assms(1) have srt: "sorted_wrt (<) (map fst (m_markerList s))"
    by (simp add: consistent_def)
  have c: "consistent ?s'"
    by (rule consistent_insert[where cmt = cmt and s' = "?s'", OF assms(1) False assms(3,4)])
      simp_all
  have fresh: "\<forall>e\<in>set (m_markerList s). fst e \<noteq> next_id s"
    using assms(1) by (auto simp: consistent_def list_all_iff)
  have notime: "\<forall>m\<in>snd ` set (m_markerList s). time m \<noteq> p"
    using False hasMarker_iff_time[OF assms(1), of p] by auto
  have "set (m_markerList ?s') = insert (next_id s, ?new) (set (m_markerList s))"
    using set_om_insert[OF srt, of "next_id s" ?new] fresh by auto
  then have "snd ` set (m_markerList ?s') =
             insert ?new {m \<in> snd ` set (m_markerList s). time m \<noteq> p}"
    using notime by auto
  then show ?thesis
    using False c addMarker_ur_new[OF False assms(2-4), of cmt undo redo]
    by (intro exI[of _ ?s'] exI[of _ "DeleteMarker p"]) simp
qed

lemma editMarker_noop:
  assumes "hasMarker s oldPos" and "marker s oldPos = Some current"
    and "(if cmt0 = [] then comment current else cmt0) = comment current"
    and "(if ty0 = - 1 then markerType current else ty0) = markerType current"
  shows "editMarker oldPos oldPos cmt0 ty0 s = Some (True, s)"
  using assms by (simp add: editMarker_def Let_def)

lemma editMarker_effect:
  assumes c: "consistent s" and has: "hasMarker s oldPos"
    and stack: "m_undoStack s = Some stack"
    and cur: "marker s oldPos = Some current"
    and cmt: "cmt = (if cmt0 = [] then comment current else cmt0)"
    and ty: "ty = (if ty0 = - 1 then markerType current else ty0)"
    and rng: "0 \<le> ty" "ty < markerTypes_size"
    and diff: "\<not> (oldPos = pos \<and> comment current = cmt \<and> markerType current = ty)"
  shows "\<exists>s' u r. editMarker oldPos pos cmt0 ty0 s = Some (True, s') \<and>
           consistent s' \<and>
           snd ` set (m_markerList s') =
             insert \<lparr>time = pos, comment = cmt, markerType = ty\<rparr>
               {m \<in> snd ` set (m_markerList s). time m \<noteq> oldPos \<and> time m \<noteq> pos} \<and>
           m_undoStack s' =
             Some (stack @
               [\<lparr>cmd_undo = u, cmd_redo = r,
                 cmd_text = (if m_guide s then ''Edit guide'' else ''Edit marker'')\<rparr>])"
proof -
  from removeMarker_ur_effect[OF c has, of "[]" "[]"] cur obtain s1
    where rm: "removeMarker_ur oldPos [] [] s =
                 Some (True, [AddMarker oldPos (comment current) (markerType current)],
                       [DeleteMarker oldPos], s1)"
      and c1: "consistent s1"
      and set1: "snd ` set (m_markerList s1) =
                   {m \<in> snd ` set (m_markerList s). time m \<noteq> oldPos}"
      and env1: "m_guide s1 = m_guide s" "m_undoStack s1 = m_undoStack s"
    by auto
  from rng have ty': "ty = (if ty = - 1 then default_marker_type s1 else ty)" by simp
  from addMarker_ur_effect[OF c1 ty' rng,
      of pos cmt "[AddMarker oldPos (comment current) (markerType current)]"
         "[DeleteMarker oldPos]"]
  obtain s2 u where add: "addMarker_ur pos cmt ty
        [AddMarker oldPos (comment current) (markerType current)] [DeleteMarker oldPos] s1 =
        Some (True, [u, AddMarker oldPos (comment current) (markerType current)],
          [DeleteMarker oldPos,
           if hasMarker s1 pos then ChangeComment pos cmt ty else AddMarker pos cmt ty], s2)"
      and c2: "consistent s2"
      and set2: "snd ` set (m_markerList s2) =
                   insert \<lparr>time = pos, comment = cmt, markerType = ty\<rparr>
                     {m \<in> snd ` set (m_markerList s1). time m \<noteq> pos}"
      and env2: "m_guide s2 = m_guide s1" "m_undoStack s2 = m_undoStack s1"
    by auto
  let ?u = "[u, AddMarker oldPos (comment current) (markerType current)]"
  let ?r = "[DeleteMarker oldPos,
             if hasMarker s1 pos then ChangeComment pos cmt ty else AddMarker pos cmt ty]"
  let ?s' = "s2\<lparr>m_undoStack :=
               Some (stack @
                 [\<lparr>cmd_undo = ?u, cmd_redo = ?r,
                   cmd_text = (if m_guide s then ''Edit guide'' else ''Edit marker'')\<rparr>])\<rparr>"
  have run: "editMarker oldPos pos cmt0 ty0 s = Some (True, ?s')"
    using has cur rm add env1 env2 stack
    by (simp add: editMarker_def Let_def PUSH_UNDO_def cmt[symmetric] ty[symmetric]
        if_not_P[OF diff] split del: if_split)
  have c': "consistent ?s'"
    using c2 consistent_cong[of ?s' s2] by simp
  have set': "snd ` set (m_markerList ?s') =
              insert \<lparr>time = pos, comment = cmt, markerType = ty\<rparr>
                {m \<in> snd ` set (m_markerList s). time m \<noteq> oldPos \<and> time m \<noteq> pos}"
    using set1 set2 by auto
  from run c' set' show ?thesis
    by (intro exI[of _ ?s'] exI[of _ ?u] exI[of _ ?r]) simp
qed

text \<open>
  Claim C1, as the code has it. In a consistent list with a marker at \<open>oldPos\<close> (the undo
  stack alive, and the type that results an index into the palette), \<^verbatim>\<open>editMarker\<close>
  returns true in every case. If the old and the new state are identical it returns the
  state as it is, with nothing pushed on the undo stack. Otherwise the removal at
  \<open>oldPos\<close> and the re-add at \<open>pos\<close> both take effect: afterwards the markers are those
  of before that lie neither at \<open>oldPos\<close> nor at \<open>pos\<close>, and the edited marker at \<open>pos\<close>;
  a different marker that occupied \<open>pos\<close> is thereby overwritten. One command labelled
  "Edit guide" or "Edit marker" is pushed, and the list is consistent.
\<close>

theorem editMarker_outcome:
  assumes "consistent s" and "hasMarker s oldPos" and "m_undoStack s = Some stack"
    and "marker s oldPos = Some current"
    and "cmt = (if cmt0 = [] then comment current else cmt0)"
    and "ty = (if ty0 = - 1 then markerType current else ty0)"
    and "0 \<le> ty" and "ty < markerTypes_size"
  shows "(oldPos = pos \<and> comment current = cmt \<and> markerType current = ty \<longrightarrow>
            editMarker oldPos pos cmt0 ty0 s = Some (True, s)) \<and>
         (\<not> (oldPos = pos \<and> comment current = cmt \<and> markerType current = ty) \<longrightarrow>
            (\<exists>s' u r. editMarker oldPos pos cmt0 ty0 s = Some (True, s') \<and>
               set (map snd (m_markerList s')) =
                 insert \<lparr>time = pos, comment = cmt, markerType = ty\<rparr>
                   {m \<in> set (map snd (m_markerList s)). time m \<noteq> oldPos \<and> time m \<noteq> pos} \<and>
               m_undoStack s' =
                 Some (stack @
                   [\<lparr>cmd_undo = u, cmd_redo = r,
                     cmd_text = (if m_guide s then ''Edit guide'' else ''Edit marker'')\<rparr>]) \<and>
               consistent s'))"
proof (intro conjI impI)
  assume same: "oldPos = pos \<and> comment current = cmt \<and> markerType current = ty"
  with assms(2,4,5,6) show "editMarker oldPos pos cmt0 ty0 s = Some (True, s)"
    using editMarker_noop[of s oldPos current cmt0 ty0] by simp
next
  assume diff: "\<not> (oldPos = pos \<and> comment current = cmt \<and> markerType current = ty)"
  from editMarker_effect[OF assms diff]
  show "\<exists>s' u r. editMarker oldPos pos cmt0 ty0 s = Some (True, s') \<and>
          set (map snd (m_markerList s')) =
            insert \<lparr>time = pos, comment = cmt, markerType = ty\<rparr>
              {m \<in> set (map snd (m_markerList s)). time m \<noteq> oldPos \<and> time m \<noteq> pos} \<and>
          m_undoStack s' =
            Some (stack @
              [\<lparr>cmd_undo = u, cmd_redo = r,
                cmd_text = (if m_guide s then ''Edit guide'' else ''Edit marker'')\<rparr>]) \<and>
          consistent s'"
    by (simp only: set_map) blast
qed

lemma two_markers_edit_facts:
  "hasMarker two_markers 10"
  "m_undoStack two_markers = Some []"
  "marker two_markers 10 = Some \<lparr>time = 10, comment = ''a'', markerType = 0\<rparr>"
  by (simp_all add: two_markers_def hasMarker_def om_contains_def marker_def
      markerIdAtFrame_def)

theorem editMarker_outcome_witness:
  "consistent two_markers \<and> hasMarker two_markers 10 \<and> m_undoStack two_markers = Some [] \<and>
   marker two_markers 10 = Some \<lparr>time = 10, comment = ''a'', markerType = 0\<rparr> \<and>
   editMarker 10 10 [] (- 1) two_markers = Some (True, two_markers) \<and>
   map_option fst (editMarker 10 30 ''c'' 2 two_markers) = Some True \<and>
   map_option (m_markerList \<circ> snd) (editMarker 10 30 ''c'' 2 two_markers) =
     Some [(1, \<lparr>time = 20, comment = ''b'', markerType = 1\<rparr>),
           (2, \<lparr>time = 30, comment = ''c'', markerType = 2\<rparr>)] \<and>
   map_option (map cmd_text) (m_undoStack (snd (the (editMarker 10 30 ''c'' 2 two_markers)))) =
     Some [''Edit marker'']"
proof -
  note f = consistent_two_markers two_markers_edit_facts
  have a: "''a'' = (if [] = [] then comment \<lparr>time = 10, comment = ''a'', markerType = 0\<rparr> else [])"
    and b: "(0::int) = (if (- 1::int) = - 1
              then markerType \<lparr>time = 10, comment = ''a'', markerType = 0\<rparr> else - 1)"
    and a': "''c'' = (if ''c'' = [] then comment \<lparr>time = 10, comment = ''a'', markerType = 0\<rparr>
               else ''c'')"
    and b': "(2::int) = (if (2::int) = - 1
              then markerType \<lparr>time = 10, comment = ''a'', markerType = 0\<rparr> else 2)"
    and r: "(0::int) \<le> 0" "(0::int) < markerTypes_size" "(0::int) \<le> 2" "2 < markerTypes_size"
    by (simp_all add: markerTypes_size_def)
  show ?thesis
    using editMarker_outcome[OF f a b r(1,2), of 10]
      editMarker_outcome[OF f a' b' r(3,4), of 30] f
    by (simp add: two_markers_def hasMarker_def om_contains_def editMarker_def
        removeMarker_ur_def addMarker_ur_def marker_def markerIdAtFrame_def
        deleteMarker_lambda_def addMarker_lambda_def getNextId_def
        getIdFromPos_def getRowfromId_def removeSnapPoint_def addSnapPoint_def
        store_put_def om_erase_def markerTypes_size_def
        UPDATE_UNDO_REDO_def PUSH_UNDO_def Let_def)
qed

text \<open>
  The claim C1 as the spec states it fails. With markers at frames 10 and 20,
  \<^verbatim>\<open>editMarker(10, 20, "c", 2)\<close> finds a different marker at the new time; the re-add
  does not fail but renames that marker, the call returns true, the marker at 10 is
  gone and the marker at 20 carries the new comment and type.
\<close>

theorem editMarker_collision_counterexample:
  "map_option fst (editMarker 10 20 ''c'' 2 two_markers) = Some True \<and>
   map_option (m_markerList \<circ> snd) (editMarker 10 20 ''c'' 2 two_markers) =
     Some [(1, \<lparr>time = 20, comment = ''c'', markerType = 2\<rparr>)] \<and>
   m_markerList two_markers =
     [(0, \<lparr>time = 10, comment = ''a'', markerType = 0\<rparr>),
      (1, \<lparr>time = 20, comment = ''b'', markerType = 1\<rparr>)]"
  by (simp add: two_markers_def hasMarker_def om_contains_def editMarker_def
      removeMarker_ur_def addMarker_ur_def marker_def markerIdAtFrame_def
      deleteMarker_lambda_def changeComment_lambda_def
      getIdFromPos_def getRowfromId_def removeSnapPoint_def
      store_put_def om_erase_def markerTypes_size_def
      UPDATE_UNDO_REDO_def PUSH_UNDO_def Let_def)

text \<open>
  Claim C8. In a consistent list with the marker \<open>current\<close> at \<open>oldPos\<close> (the undo stack
  alive), \<^verbatim>\<open>editMarker\<close> called with an empty comment behaves as if called with the
  comment of \<open>current\<close>, and called with the type \<open>-1\<close> as if called with the type of
  \<open>current\<close>. The check for an identical state compares these values: editing in place
  with an empty comment and the type \<open>-1\<close> returns true and leaves the state as it is.
  For a type that is \<open>-1\<close> or an index into the palette, the call returns true and the
  marker found at \<open>pos\<close> afterwards has the comment given, or that of \<open>current\<close> if the
  comment given is empty, and the type given, or that of \<open>current\<close> if it is \<open>-1\<close>.
\<close>

theorem editMarker_defaults:
  assumes "consistent s" and "hasMarker s oldPos" and "m_undoStack s = Some stack"
    and "marker s oldPos = Some current"
  shows "editMarker oldPos pos [] ty0 s = editMarker oldPos pos (comment current) ty0 s \<and>
         editMarker oldPos pos cmt0 (- 1) s = editMarker oldPos pos cmt0 (markerType current) s \<and>
         editMarker oldPos oldPos [] (- 1) s = Some (True, s) \<and>
         (ty0 = - 1 \<or> (0 \<le> ty0 \<and> ty0 < markerTypes_size) \<longrightarrow>
            (\<exists>s'. editMarker oldPos pos cmt0 ty0 s = Some (True, s') \<and>
               hasMarker s' pos \<and>
               marker s' pos =
                 Some \<lparr>time = pos,
                       comment = (if cmt0 = [] then comment current else cmt0),
                       markerType = (if ty0 = - 1 then markerType current else ty0)\<rparr>))"
proof (intro conjI impI)
  show "editMarker oldPos pos [] ty0 s = editMarker oldPos pos (comment current) ty0 s"
    using assms(2,4) by (simp add: editMarker_def Let_def)
  show "editMarker oldPos pos cmt0 (- 1) s = editMarker oldPos pos cmt0 (markerType current) s"
    using assms(2,4) by (simp add: editMarker_def Let_def)
  show "editMarker oldPos oldPos [] (- 1) s = Some (True, s)"
    using assms(2,4) by (simp add: editMarker_noop)
next
  assume valid: "ty0 = - 1 \<or> (0 \<le> ty0 \<and> ty0 < markerTypes_size)"
  define cmt where "cmt = (if cmt0 = [] then comment current else cmt0)"
  define ty where "ty = (if ty0 = - 1 then markerType current else ty0)"
  from marker_iff_member[OF assms(1), of oldPos current] assms(2,4)
  have mem: "current \<in> snd ` set (m_markerList s)" and tm: "time current = oldPos" by simp_all
  from mem obtain mid where "(mid, current) \<in> set (m_markerList s)" by auto
  with assms(1) have "0 \<le> markerType current" "markerType current < markerTypes_size"
    by (auto simp: consistent_def list_all_iff)
  with valid have rng: "0 \<le> ty" "ty < markerTypes_size" by (auto simp: ty_def)
  show "\<exists>s'. editMarker oldPos pos cmt0 ty0 s = Some (True, s') \<and>
          hasMarker s' pos \<and>
          marker s' pos =
            Some \<lparr>time = pos,
                  comment = (if cmt0 = [] then comment current else cmt0),
                  markerType = (if ty0 = - 1 then markerType current else ty0)\<rparr>"
  proof (cases "oldPos = pos \<and> comment current = cmt \<and> markerType current = ty")
    case True
    then have "editMarker oldPos pos cmt0 ty0 s = Some (True, s)"
      using editMarker_noop[of s oldPos current cmt0 ty0] assms(2,4)
      by (simp add: cmt_def ty_def)
    moreover have "current = \<lparr>time = pos, comment = cmt, markerType = ty\<rparr>"
      using True tm by simp
    ultimately show ?thesis
      using assms(2,4) True by (simp add: cmt_def ty_def)
  next
    case False
    from editMarker_effect[OF assms cmt_def ty_def rng False] obtain s'
      where run: "editMarker oldPos pos cmt0 ty0 s = Some (True, s')"
        and c': "consistent s'"
        and set': "snd ` set (m_markerList s') =
                     insert \<lparr>time = pos, comment = cmt, markerType = ty\<rparr>
                       {m \<in> snd ` set (m_markerList s). time m \<noteq> oldPos \<and> time m \<noteq> pos}"
      by blast
    have "\<lparr>time = pos, comment = cmt, markerType = ty\<rparr> \<in> snd ` set (m_markerList s')"
      unfolding set' by simp
    with marker_iff_member[OF c', of pos "\<lparr>time = pos, comment = cmt, markerType = ty\<rparr>"]
    have "hasMarker s' pos \<and> marker s' pos = Some \<lparr>time = pos, comment = cmt, markerType = ty\<rparr>"
      by simp
    with run show ?thesis by (simp add: cmt_def ty_def)
  qed
qed

theorem editMarker_defaults_witness:
  "consistent two_markers \<and> hasMarker two_markers 10 \<and> m_undoStack two_markers = Some [] \<and>
   marker two_markers 10 = Some \<lparr>time = 10, comment = ''a'', markerType = 0\<rparr> \<and>
   editMarker 10 10 [] (- 1) two_markers = Some (True, two_markers) \<and>
   ((- 1::int) = - 1 \<or> (0 \<le> (- 1::int) \<and> (- 1::int) < markerTypes_size)) \<and>
   map_option (m_markerList \<circ> snd) (editMarker 10 30 [] (- 1) two_markers) =
     Some [(1, \<lparr>time = 20, comment = ''b'', markerType = 1\<rparr>),
           (2, \<lparr>time = 30, comment = ''a'', markerType = 0\<rparr>)]"
proof -
  note f = consistent_two_markers two_markers_edit_facts
  show ?thesis
    using editMarker_defaults[OF f, of 30 "- 1" "[]"] f
    by (simp add: two_markers_def hasMarker_def om_contains_def editMarker_def
        removeMarker_ur_def addMarker_ur_def marker_def markerIdAtFrame_def
        deleteMarker_lambda_def addMarker_lambda_def getNextId_def
        getIdFromPos_def getRowfromId_def removeSnapPoint_def addSnapPoint_def
        store_put_def om_erase_def markerTypes_size_def
        UPDATE_UNDO_REDO_def PUSH_UNDO_def Let_def)
qed

section \<open>Importing markers\<close>

lemma entry_type_range: "0 \<le> entry_type obj" "entry_type obj < markerTypes_size"
  by (simp_all add: entry_type_def Let_def markerTypes_size_def)

lemma importFromJson_loop_step:
  assumes "obj_contains obj ''pos''"
  shows "importFromJson_loop (JObject obj # rest) ic undo redo s =
     (case (if \<not> ic \<and> hasMarker s (entry_pos obj)
            then map_option
                   (\<lambda>oldMarker. comment oldMarker = entry_comment obj \<and>
                                 entry_type obj = markerType oldMarker)
                   (marker s (entry_pos obj))
            else Some True) of
        None \<Rightarrow> None
      | Some res0 \<Rightarrow>
          (case (if res0
                 then addMarker_ur (entry_pos obj) (entry_comment obj) (entry_type obj) undo redo s
                 else Some (False, undo, redo, s)) of
             None \<Rightarrow> None
           | Some (res, undo', redo', s') \<Rightarrow>
               if \<not> res
               then (case run_Fun undo' s' of
                       None \<Rightarrow> None
                     | Some (undone, s'') \<Rightarrow>
                         if undone then Some (False, undo', redo', s'') else None)
               else importFromJson_loop rest ic undo' redo' s'))"
  unfolding entry_pos_def entry_comment_def entry_type_def Let_def
  using assms by (simp add: Let_def)

lemma importFromJson_loop_skip:
  assumes "\<forall>obj. e = JObject obj \<longrightarrow> \<not> obj_contains obj ''pos''"
  shows "importFromJson_loop (e # rest) ic undo redo s = importFromJson_loop rest ic undo redo s"
  using assms by (cases e) simp_all

lemma importFromJson_loop_append:
  "importFromJson_loop (pre @ xs) ic undo redo s =
     (case importFromJson_loop pre ic undo redo s of
        None \<Rightarrow> None
      | Some (res, u, r, s') \<Rightarrow>
          if res then importFromJson_loop xs ic u r s' else Some (res, u, r, s'))"
proof (induction pre arbitrary: undo redo s)
  case Nil
  show ?case by simp
next
  case (Cons e pre)
  show ?case
  proof (cases "\<exists>obj. e = JObject obj \<and> obj_contains obj ''pos''")
    case False
    then have sk: "\<forall>obj. e = JObject obj \<longrightarrow> \<not> obj_contains obj ''pos''" by blast
    show ?thesis
      using importFromJson_loop_skip[OF sk] Cons.IH by simp
  next
    case True
    then obtain obj where e: "e = JObject obj" and has: "obj_contains obj ''pos''" by blast
    define res0 where "res0 =
        (if \<not> ic \<and> hasMarker s (entry_pos obj)
         then map_option
                (\<lambda>oldMarker. comment oldMarker = entry_comment obj \<and>
                              entry_type obj = markerType oldMarker)
                (marker s (entry_pos obj))
         else Some True)"
    show ?thesis
    proof (cases res0)
      case None
      then show ?thesis
        unfolding e append_Cons importFromJson_loop_step[OF has] res0_def[symmetric]
        by simp
    next
      case (Some b)
      define added where "added =
        (if b then addMarker_ur (entry_pos obj) (entry_comment obj) (entry_type obj) undo redo s
         else Some (False, undo, redo, s))"
      show ?thesis
      proof (cases added)
        case None
        then show ?thesis
          unfolding e append_Cons importFromJson_loop_step[OF has] res0_def[symmetric] Some
            option.case added_def[symmetric]
          by simp
      next
        case (Some t)
        obtain res u r s' where t: "t = (res, u, r, s')" by (cases t)
        show ?thesis
          unfolding e append_Cons importFromJson_loop_step[OF has] res0_def[symmetric]
            \<open>res0 = Some b\<close> option.case added_def[symmetric] Some t prod.case
          by (cases res) (simp_all add: Cons.IH split: option.splits)
      qed
    qed
  qed
qed

lemma lambdas_env:
  "changeComment_lambda p cmt ty s = Some (r, s') \<Longrightarrow>
     m_guide s' = m_guide s \<and> m_undoStack s' = m_undoStack s \<and>
     default_marker_type s' = default_marker_type s"
  "addMarker_lambda p cmt ty s = Some (r, s') \<Longrightarrow>
     m_guide s' = m_guide s \<and> m_undoStack s' = m_undoStack s \<and>
     default_marker_type s' = default_marker_type s"
  "deleteMarker_lambda p s = Some (r, s') \<Longrightarrow>
     m_guide s' = m_guide s \<and> m_undoStack s' = m_undoStack s \<and>
     default_marker_type s' = default_marker_type s"
  by (auto simp: changeComment_lambda_def addMarker_lambda_def deleteMarker_lambda_def Let_def
      split: if_splits option.splits prod.splits)

lemma run_prim_env:
  "run_prim p s = Some (r, s') \<Longrightarrow>
     m_guide s' = m_guide s \<and> m_undoStack s' = m_undoStack s \<and>
     default_marker_type s' = default_marker_type s"
  by (cases p) (auto dest: lambdas_env)

lemma run_Fun_env:
  "run_Fun f s = Some (r, s') \<Longrightarrow>
     m_guide s' = m_guide s \<and> m_undoStack s' = m_undoStack s \<and>
     default_marker_type s' = default_marker_type s"
proof (induction f arbitrary: s r s')
  case Nil
  then show ?case by simp
next
  case (Cons p f)
  from Cons.prems obtain v s1 r1 where p: "run_prim p s = Some (v, s1)"
    and f: "run_Fun f s1 = Some (r1, s')"
    by (auto split: option.splits prod.splits)
  from run_prim_env[OF p] Cons.IH[OF f] show ?case by simp
qed

lemma rolls_back_Nil: "rolls_back [] s (m_markerList s) (m_markerPositions s)"
  by (simp add: rolls_back_def)

lemma rolls_back_Cons:
  assumes rb: "rolls_back undo s L0 P0"
    and step: "\<And>s1::MarkerListModel. m_markerList s1 = m_markerList s' \<Longrightarrow>
                 m_markerPositions s1 = m_markerPositions s' \<Longrightarrow>
                 \<exists>s2. run_prim u s1 = Some (True, s2) \<and>
                      m_markerList s2 = m_markerList s \<and>
                      m_markerPositions s2 = m_markerPositions s"
  shows "rolls_back (u # undo) s' L0 P0"
  unfolding rolls_back_def
proof (intro allI impI)
  fix s1 :: MarkerListModel
  assume a: "m_markerList s1 = m_markerList s' \<and> m_markerPositions s1 = m_markerPositions s'"
  with step obtain s2 where s2: "run_prim u s1 = Some (True, s2)"
    "m_markerList s2 = m_markerList s" "m_markerPositions s2 = m_markerPositions s"
    by blast
  with rb obtain s3 where "run_Fun undo s2 = Some (True, s3)"
    "m_markerList s3 = L0" "m_markerPositions s3 = P0"
    unfolding rolls_back_def by blast
  with s2(1) show "\<exists>s3. run_Fun (u # undo) s1 = Some (True, s3) \<and>
                       m_markerList s3 = L0 \<and> m_markerPositions s3 = P0"
    by simp
qed

lemma undo_of_insert:
  assumes "map_of P p = None" and "map_of L n = None"
    and "m_markerList s1 = om_insert n m L"
    and "m_markerPositions s1 = om_insert p n P"
  shows "\<exists>s2. run_prim (DeleteMarker p) s1 = Some (True, s2) \<and>
              m_markerList s2 = L \<and> m_markerPositions s2 = P"
proof -
  from assms(1) have kp: "p \<notin> fst ` set P" by (simp add: map_of_eq_None_iff)
  from assms(2) have kn: "n \<notin> fst ` set L" by (simp add: map_of_eq_None_iff)
  have "hasMarker s1 p" "getIdFromPos s1 p = n"
    by (simp_all add: hasMarker_def getIdFromPos_def om_contains_def assms(4) map_of_om_insert)
  moreover have "getRowfromId s1 n = Some (int (om_index n (m_markerList s1)))"
    by (simp add: getRowfromId_def assms(3) map_of_om_insert)
  ultimately show ?thesis
    using om_erase_om_insert[OF kp, of n] om_erase_om_insert[OF kn, of m]
    by (simp add: deleteMarker_lambda_def assms(3,4))
qed

lemma undo_of_change:
  assumes "sorted_wrt (<) (map fst L)" and "map_of P p = Some mid" and "map_of L mid = Some m"
    and "m_markerList s1 = om_insert mid (m\<lparr>comment := cmt, markerType := ty\<rparr>) L"
    and "m_markerPositions s1 = P"
  shows "\<exists>s2. run_prim (ChangeComment p (comment m) (markerType m)) s1 = Some (True, s2) \<and>
              m_markerList s2 = L \<and> m_markerPositions s2 = P"
proof -
  have "hasMarker s1 p" "getIdFromPos s1 p = mid"
    by (simp_all add: hasMarker_def getIdFromPos_def om_contains_def assms(2,5))
  moreover have "getRowfromId s1 mid = Some (int (om_index mid (m_markerList s1)))"
    by (simp add: getRowfromId_def assms(4) map_of_om_insert)
  moreover have "map_of (m_markerList s1) mid = Some (m\<lparr>comment := cmt, markerType := ty\<rparr>)"
    by (simp add: assms(4) map_of_om_insert)
  moreover have "om_insert mid m (m_markerList s1) = L"
    by (simp add: assms(4) om_insert_idem om_insert_same[OF assms(1,3)])
  ultimately show ?thesis
    by (simp add: changeComment_lambda_def assms(5))
qed

lemma addMarker_ur_undoable:
  assumes "consistent s"
    and "ty' = (if ty = - 1 then default_marker_type s else ty)"
    and "0 \<le> ty'" and "ty' < markerTypes_size"
    and "rolls_back undo s L0 P0"
  shows "\<exists>s' u r. addMarker_ur p cmt ty undo redo s = Some (True, u, r, s') \<and>
           rolls_back u s' L0 P0 \<and>
           (marker s p = Some \<lparr>time = p, comment = cmt, markerType = ty'\<rparr> \<and> hasMarker s p \<longrightarrow>
              m_markerList s' = m_markerList s \<and> m_markerPositions s' = m_markerPositions s)"
proof (cases "hasMarker s p")
  case True
  then obtain mid where look: "map_of (m_markerPositions s) p = Some mid"
    by (auto simp: hasMarker_lookup)
  from lookup_queries(4)[OF assms(1) look] obtain old
    where old: "map_of (m_markerList s) mid = Some old" "time old = p" "marker s p = Some old"
    by auto
  from assms(1) have srt: "sorted_wrt (<) (map fst (m_markerList s))"
    by (simp add: consistent_def)
  let ?s' = "s\<lparr>m_markerList :=
                 om_insert mid (old\<lparr>comment := cmt, markerType := ty'\<rparr>) (m_markerList s),
               emitted := emitted s @
                 [DataChanged (int (om_index mid (m_markerList s)))
                    (int (om_index mid (m_markerList s))) [CommentRole, ColorRole]]\<rparr>"
  have rb: "rolls_back (ChangeComment p (comment old) (markerType old) # undo) ?s' L0 P0"
  proof (rule rolls_back_Cons[OF assms(5)])
    fix s1 :: MarkerListModel
    assume "m_markerList s1 = m_markerList ?s'" "m_markerPositions s1 = m_markerPositions ?s'"
    then show "\<exists>s2. run_prim (ChangeComment p (comment old) (markerType old)) s1 =
                      Some (True, s2) \<and>
                    m_markerList s2 = m_markerList s \<and>
                    m_markerPositions s2 = m_markerPositions s"
      by (intro undo_of_change[OF srt look old(1)]) simp_all
  qed
  have same: "m_markerList ?s' = m_markerList s"
    if "marker s p = Some \<lparr>time = p, comment = cmt, markerType = ty'\<rparr>"
  proof -
    from that old(3) have "old\<lparr>comment := cmt, markerType := ty'\<rparr> = old" by simp
    then show ?thesis using om_insert_same[OF srt old(1)] by simp
  qed
  from rb same addMarker_ur_rename[OF assms(1) look old(1) assms(2-4), of cmt undo redo]
  show ?thesis
    by (intro exI[of _ ?s'] exI[of _ "ChangeComment p (comment old) (markerType old) # undo"]
        exI[of _ "redo @ [ChangeComment p cmt ty']"]) simp
next
  case False
  let ?new = "\<lparr>time = p, comment = cmt, markerType = ty'\<rparr>"
  let ?s' = "addSnapPoint p
               (s\<lparr>m_markerList := om_insert (next_id s) ?new (m_markerList s),
                  m_markerPositions := om_insert p (next_id s) (m_markerPositions s),
                  next_id := next_id s + 1,
                  emitted := emitted s @
                    [RowsInserted (int (length (m_markerList s)))
                       (int (length (m_markerList s)))]\<rparr>)"
  from False have none: "map_of (m_markerPositions s) p = None"
    by (simp add: hasMarker_def om_contains_def)
  have fresh: "map_of (m_markerList s) (next_id s) = None"
    using marker_bounds(2)[OF assms(1), of "next_id s"]
    by (cases "map_of (m_markerList s) (next_id s)") auto
  have rb: "rolls_back (DeleteMarker p # undo) ?s' L0 P0"
  proof (rule rolls_back_Cons[OF assms(5)])
    fix s1 :: MarkerListModel
    assume "m_markerList s1 = m_markerList ?s'" "m_markerPositions s1 = m_markerPositions ?s'"
    then show "\<exists>s2. run_prim (DeleteMarker p) s1 = Some (True, s2) \<and>
                    m_markerList s2 = m_markerList s \<and>
                    m_markerPositions s2 = m_markerPositions s"
      by (intro undo_of_insert[OF none fresh, of _ ?new]) simp_all
  qed
  from rb False addMarker_ur_new[OF False assms(2-4), of cmt undo redo]
  show ?thesis
    by (intro exI[of _ ?s'] exI[of _ "DeleteMarker p # undo"]
        exI[of _ "redo @ [AddMarker p cmt ty']"]) simp
qed

lemma conflict_check:
  assumes "consistent s"
  shows "(if \<not> ic \<and> hasMarker s p
          then map_option (\<lambda>oldMarker. comment oldMarker = c \<and> t = markerType oldMarker)
                 (marker s p)
          else Some True) =
         Some (ic \<or> (\<forall>old\<in>snd ` set (m_markerList s).
                       time old = p \<longrightarrow> comment old = c \<and> t = markerType old))"
proof (cases "hasMarker s p")
  case True
  then obtain mid where look: "map_of (m_markerPositions s) p = Some mid"
    by (auto simp: hasMarker_lookup)
  from lookup_queries(4)[OF assms look] obtain old where old: "marker s p = Some old" by auto
  have iff: "m \<in> snd ` set (m_markerList s) \<and> time m = p \<longleftrightarrow> m = old" for m
    using marker_iff_member[OF assms, of p m] True old by auto
  have "(\<forall>m\<in>snd ` set (m_markerList s). time m = p \<longrightarrow> comment m = c \<and> t = markerType m) \<longleftrightarrow>
        (comment old = c \<and> t = markerType old)"
  proof
    assume l: "\<forall>m\<in>snd ` set (m_markerList s). time m = p \<longrightarrow> comment m = c \<and> t = markerType m"
    from iff[of old] have "old \<in> snd ` set (m_markerList s)" "time old = p" by simp_all
    with l show "comment old = c \<and> t = markerType old" by blast
  next
    assume r: "comment old = c \<and> t = markerType old"
    show "\<forall>m\<in>snd ` set (m_markerList s). time m = p \<longrightarrow> comment m = c \<and> t = markerType m"
    proof (intro ballI impI)
      fix m assume "m \<in> snd ` set (m_markerList s)" "time m = p"
      with iff[of m] have "m = old" by simp
      with r show "comment m = c \<and> t = markerType m" by simp
    qed
  qed
  with True old show ?thesis by simp
next
  case False
  then have "\<forall>m\<in>snd ` set (m_markerList s). time m \<noteq> p"
    using hasMarker_iff_time[OF assms, of p] by auto
  with False show ?thesis by auto
qed

lemma addMarker_ur_import_step:
  assumes c: "consistent s" and rb: "rolls_back undo s L0 P0"
    and rng: "0 \<le> t" "t < markerTypes_size"
  shows "\<exists>s1 u r. addMarker_ur p cmt t undo redo s = Some (True, u, r, s1) \<and>
           consistent s1 \<and> rolls_back u s1 L0 P0 \<and>
           snd ` set (m_markerList s1) =
             insert \<lparr>time = p, comment = cmt, markerType = t\<rparr>
               {m \<in> snd ` set (m_markerList s). time m \<noteq> p} \<and>
           m_guide s1 = m_guide s \<and> m_undoStack s1 = m_undoStack s"
proof -
  from rng have t': "t = (if t = - 1 then default_marker_type s else t)" by simp
  from addMarker_ur_effect[OF c t' rng, of p cmt undo redo] obtain s1 u r
    where a: "addMarker_ur p cmt t undo redo s = Some (True, u, r, s1)"
      and a': "consistent s1"
        "snd ` set (m_markerList s1) =
           insert \<lparr>time = p, comment = cmt, markerType = t\<rparr>
             {m \<in> snd ` set (m_markerList s). time m \<noteq> p}"
        "m_guide s1 = m_guide s" "m_undoStack s1 = m_undoStack s"
    by blast
  from addMarker_ur_undoable[OF c t' rng rb, of p cmt redo] a
  have "rolls_back u s1 L0 P0"
    by auto
  with a a' show ?thesis by blast
qed

lemma importFromJson_loop_no_ignore:
  assumes "consistent s" and "rolls_back undo s L0 P0"
    and "snd ` set L0 \<subseteq> snd ` set (m_markerList s)"
  shows "\<exists>res u r s'. importFromJson_loop entries False undo redo s = Some (res, u, r, s') \<and>
           (\<not> res \<longrightarrow> m_markerList s' = L0 \<and> m_markerPositions s' = P0) \<and>
           ((\<exists>obj. JObject obj \<in> set entries \<and> conflicting L0 obj) \<longrightarrow> \<not> res) \<and>
           m_guide s' = m_guide s \<and> m_undoStack s' = m_undoStack s \<and>
           (res \<longrightarrow> consistent s' \<and> rolls_back u s' L0 P0 \<and>
              snd ` set L0 \<subseteq> snd ` set (m_markerList s'))"
  using assms
proof (induction entries arbitrary: s undo redo)
  case Nil
  have "importFromJson_loop [] False undo redo s = Some (True, undo, redo, s)" by simp
  then show ?case
    by (intro exI[of _ True] exI[of _ undo] exI[of _ redo] exI[of _ s]) (simp add: Nil.prems)
next
  case (Cons e entries)
  note c = Cons.prems(1) and rb = Cons.prems(2) and sub = Cons.prems(3)
  show ?case
  proof (cases "\<exists>obj. e = JObject obj \<and> obj_contains obj ''pos''")
    case False
    then have sk: "\<forall>obj. e = JObject obj \<longrightarrow> \<not> obj_contains obj ''pos''" by blast
    from Cons.IH[OF c rb sub, of redo] obtain res u r s'
      where ih: "importFromJson_loop entries False undo redo s = Some (res, u, r, s')"
        "\<not> res \<longrightarrow> m_markerList s' = L0 \<and> m_markerPositions s' = P0"
        "(\<exists>obj. JObject obj \<in> set entries \<and> conflicting L0 obj) \<longrightarrow> \<not> res"
        "m_guide s' = m_guide s" "m_undoStack s' = m_undoStack s"
        "res \<longrightarrow> consistent s' \<and> rolls_back u s' L0 P0 \<and>
           snd ` set L0 \<subseteq> snd ` set (m_markerList s')"
      by blast
    have cf: "(\<exists>obj. JObject obj \<in> set (e # entries) \<and> conflicting L0 obj) \<longrightarrow> \<not> res"
    proof
      assume "\<exists>obj. JObject obj \<in> set (e # entries) \<and> conflicting L0 obj"
      then obtain obj where o: "JObject obj \<in> set (e # entries)" "conflicting L0 obj" by blast
      from o(2) have "obj_contains obj ''pos''" by (simp add: conflicting_def)
      with sk o(1) have "JObject obj \<in> set entries" by auto
      with o(2) ih(3) show "\<not> res" by blast
    qed
    have run: "importFromJson_loop (e # entries) False undo redo s = Some (res, u, r, s')"
      using ih(1) importFromJson_loop_skip[OF sk, of entries False undo redo s] by simp
    show ?thesis
      by (intro exI[of _ res] exI[of _ u] exI[of _ r] exI[of _ s'] conjI)
        (fact run ih(2) cf ih(4,5,6))+
  next
    case True
    then obtain obj where e: "e = JObject obj" and has: "obj_contains obj ''pos''" by blast
    define p where "p = entry_pos obj"
    define cmt where "cmt = entry_comment obj"
    define t where "t = entry_type obj"
    define ok where "ok \<longleftrightarrow> (\<forall>old\<in>snd ` set (m_markerList s).
                       time old = p \<longrightarrow> comment old = cmt \<and> t = markerType old)"
    have chk: "(if \<not> False \<and> hasMarker s p
                then map_option (\<lambda>oldMarker. comment oldMarker = cmt \<and> t = markerType oldMarker)
                       (marker s p)
                else Some True) = Some ok"
      using conflict_check[OF c, of False p cmt t] by (simp add: ok_def)
    have step: "importFromJson_loop (e # entries) False undo redo s =
       (case (if ok then addMarker_ur p cmt t undo redo s else Some (False, undo, redo, s)) of
          None \<Rightarrow> None
        | Some (res, undo', redo', s') \<Rightarrow>
            if \<not> res
            then (case run_Fun undo' s' of
                    None \<Rightarrow> None
                  | Some (undone, s'') \<Rightarrow>
                      if undone then Some (False, undo', redo', s'') else None)
            else importFromJson_loop entries False undo' redo' s')"
      unfolding e importFromJson_loop_step[OF has] p_def[symmetric] cmt_def[symmetric]
        t_def[symmetric] chk
      by simp
    show ?thesis
    proof (cases ok)
      case False
      from rb obtain s2 where s2: "run_Fun undo s = Some (True, s2)"
        "m_markerList s2 = L0" "m_markerPositions s2 = P0"
        unfolding rolls_back_def by blast
      from run_Fun_env[OF s2(1)] have env: "m_guide s2 = m_guide s" "m_undoStack s2 = m_undoStack s"
        by simp_all
      have run: "importFromJson_loop (e # entries) False undo redo s = Some (False, undo, redo, s2)"
        unfolding step using False s2(1) by simp
      have f1: "\<not> False \<longrightarrow> m_markerList s2 = L0 \<and> m_markerPositions s2 = P0"
        using s2(2,3) by simp
      have f2: "(\<exists>obj. JObject obj \<in> set (e # entries) \<and> conflicting L0 obj) \<longrightarrow> \<not> False"
        by simp
      have f3: "False \<longrightarrow> consistent s2 \<and> rolls_back undo s2 L0 P0 \<and>
                       snd ` set L0 \<subseteq> snd ` set (m_markerList s2)"
        by simp
      show ?thesis
        by (intro exI[of _ False] exI[of _ undo] exI[of _ redo] exI[of _ s2] conjI)
          (fact run f1 f2 f3 env)+
    next
      case True
      from addMarker_ur_import_step[OF c rb, of t p cmt redo] entry_type_range[of obj]
      obtain s1 u r where a: "addMarker_ur p cmt t undo redo s = Some (True, u, r, s1)"
        and c1: "consistent s1" and rb1: "rolls_back u s1 L0 P0"
        and set1: "snd ` set (m_markerList s1) =
                     insert \<lparr>time = p, comment = cmt, markerType = t\<rparr>
                       {m \<in> snd ` set (m_markerList s). time m \<noteq> p}"
        and env1: "m_guide s1 = m_guide s" "m_undoStack s1 = m_undoStack s"
        unfolding t_def by blast
      have keep: "m \<in> snd ` set (m_markerList s1)" if "m \<in> snd ` set (m_markerList s)" for m
      proof (cases "time m = p")
        case True
        with \<open>ok\<close> that have "comment m = cmt \<and> t = markerType m" unfolding ok_def by blast
        with True have "m = \<lparr>time = p, comment = cmt, markerType = t\<rparr>" by simp
        then show ?thesis unfolding set1 by simp
      next
        case False
        with that show ?thesis unfolding set1 by simp
      qed
      with sub have sub1: "snd ` set L0 \<subseteq> snd ` set (m_markerList s1)" by blast
      from Cons.IH[OF c1 rb1 sub1, of r] obtain res u' r' s'
        where ih: "importFromJson_loop entries False u r s1 = Some (res, u', r', s')"
          "\<not> res \<longrightarrow> m_markerList s' = L0 \<and> m_markerPositions s' = P0"
          "(\<exists>obj. JObject obj \<in> set entries \<and> conflicting L0 obj) \<longrightarrow> \<not> res"
          "m_guide s' = m_guide s1" "m_undoStack s' = m_undoStack s1"
          "res \<longrightarrow> consistent s' \<and> rolls_back u' s' L0 P0 \<and>
             snd ` set L0 \<subseteq> snd ` set (m_markerList s')"
        by blast
      have run: "importFromJson_loop (e # entries) False undo redo s = Some (res, u', r', s')"
        unfolding step using True a ih(1) by simp
      have here: "\<not> conflicting L0 obj"
      proof
        assume "conflicting L0 obj"
        then obtain old where old: "old \<in> snd ` set L0" "time old = p"
          "comment old \<noteq> cmt \<or> markerType old \<noteq> t"
          unfolding conflicting_def p_def cmt_def t_def by blast
        from old(1) sub have "old \<in> snd ` set (m_markerList s)" by blast
        with \<open>ok\<close> old(2) have "comment old = cmt \<and> t = markerType old"
          unfolding ok_def by blast
        with old(3) show False by simp
      qed
      have cf: "(\<exists>obj. JObject obj \<in> set (e # entries) \<and> conflicting L0 obj) \<longrightarrow> \<not> res"
      proof
        assume "\<exists>obj. JObject obj \<in> set (e # entries) \<and> conflicting L0 obj"
        then obtain ob where ob: "JObject ob \<in> set (e # entries)" "conflicting L0 ob" by blast
        with here e have "JObject ob \<in> set entries" by auto
        with ob(2) ih(3) show "\<not> res" by blast
      qed
      from ih(4,5) env1 have env: "m_guide s' = m_guide s" "m_undoStack s' = m_undoStack s"
        by simp_all
      show ?thesis
        by (intro exI[of _ res] exI[of _ u'] exI[of _ r'] exI[of _ s'] conjI)
          (fact run ih(2) cf env ih(6))+
    qed
  qed
qed

lemma addMarker_ur_identical:
  assumes c: "consistent s" and rng: "0 \<le> t" "t < markerTypes_size"
    and hm: "hasMarker s p" "marker s p = Some \<lparr>time = p, comment = cmt, markerType = t\<rparr>"
  shows "\<exists>s1 u r. addMarker_ur p cmt t undo redo s = Some (True, u, r, s1) \<and>
           consistent s1 \<and>
           m_markerList s1 = m_markerList s \<and> m_markerPositions s1 = m_markerPositions s \<and>
           m_guide s1 = m_guide s \<and> m_undoStack s1 = m_undoStack s"
proof -
  from hm(1) obtain mid where look: "map_of (m_markerPositions s) p = Some mid"
    by (auto simp: hasMarker_lookup)
  from lookup_queries(4)[OF c look] hm(2)
  have old: "map_of (m_markerList s) mid = Some \<lparr>time = p, comment = cmt, markerType = t\<rparr>"
    by auto
  from c have srt: "sorted_wrt (<) (map fst (m_markerList s))"
    by (simp add: consistent_def)
  from rng have t': "t = (if t = - 1 then default_marker_type s else t)" by simp
  let ?s1 = "s\<lparr>m_markerList :=
                 om_insert mid (\<lparr>time = p, comment = cmt, markerType = t\<rparr>
                                  \<lparr>comment := cmt, markerType := t\<rparr>) (m_markerList s),
               emitted := emitted s @
                 [DataChanged (int (om_index mid (m_markerList s)))
                    (int (om_index mid (m_markerList s))) [CommentRole, ColorRole]]\<rparr>"
  have same: "m_markerList ?s1 = m_markerList s"
    using om_insert_same[OF srt old] by simp
  then have "consistent ?s1"
    using c consistent_cong[of ?s1 s] by simp
  with same addMarker_ur_rename[OF c look old t' rng, of cmt undo redo]
  show ?thesis
    by (intro exI[of _ ?s1]) simp
qed

lemma importFromJson_loop_identical:
  assumes "consistent s"
    and "\<forall>obj. JObject obj \<in> set entries \<and> obj_contains obj ''pos'' \<longrightarrow>
           \<lparr>time = entry_pos obj, comment = entry_comment obj, markerType = entry_type obj\<rparr>
             \<in> snd ` set (m_markerList s)"
  shows "\<exists>u r s'. importFromJson_loop entries ic undo redo s = Some (True, u, r, s') \<and>
           m_markerList s' = m_markerList s \<and> m_markerPositions s' = m_markerPositions s \<and>
           m_guide s' = m_guide s \<and> m_undoStack s' = m_undoStack s"
  using assms
proof (induction entries arbitrary: s undo redo)
  case Nil
  show ?case by simp
next
  case (Cons e entries)
  note c = Cons.prems(1) and idn = Cons.prems(2)
  show ?case
  proof (cases "\<exists>obj. e = JObject obj \<and> obj_contains obj ''pos''")
    case False
    then have sk: "\<forall>obj. e = JObject obj \<longrightarrow> \<not> obj_contains obj ''pos''" by blast
    from idn have "\<forall>obj. JObject obj \<in> set entries \<and> obj_contains obj ''pos'' \<longrightarrow>
           \<lparr>time = entry_pos obj, comment = entry_comment obj, markerType = entry_type obj\<rparr>
             \<in> snd ` set (m_markerList s)" by simp
    from Cons.IH[OF c this, of undo redo] importFromJson_loop_skip[OF sk, of entries ic undo redo s]
    show ?thesis by simp
  next
    case True
    then obtain obj where e: "e = JObject obj" and has: "obj_contains obj ''pos''" by blast
    define p where "p = entry_pos obj"
    define cmt where "cmt = entry_comment obj"
    define t where "t = entry_type obj"
    from idn e has have mem: "\<lparr>time = p, comment = cmt, markerType = t\<rparr> \<in> snd ` set (m_markerList s)"
      unfolding p_def cmt_def t_def by simp
    with marker_iff_member[OF c, of p "\<lparr>time = p, comment = cmt, markerType = t\<rparr>"]
    have hm: "hasMarker s p" "marker s p = Some \<lparr>time = p, comment = cmt, markerType = t\<rparr>"
      by simp_all
    have chk: "(if \<not> ic \<and> hasMarker s p
                then map_option (\<lambda>oldMarker. comment oldMarker = cmt \<and> t = markerType oldMarker)
                       (marker s p)
                else Some True) = Some True"
      using hm by simp
    from addMarker_ur_identical[OF c _ _ hm, of undo redo] entry_type_range[of obj]
    obtain s1 u r where a: "addMarker_ur p cmt t undo redo s = Some (True, u, r, s1)"
      and c1: "consistent s1"
      and same: "m_markerList s1 = m_markerList s" "m_markerPositions s1 = m_markerPositions s"
      and env1: "m_guide s1 = m_guide s" "m_undoStack s1 = m_undoStack s"
      unfolding t_def by blast
    from idn same have "\<forall>obj. JObject obj \<in> set entries \<and> obj_contains obj ''pos'' \<longrightarrow>
           \<lparr>time = entry_pos obj, comment = entry_comment obj, markerType = entry_type obj\<rparr>
             \<in> snd ` set (m_markerList s1)" by simp
    from Cons.IH[OF c1 this, of u r] obtain u' r' s'
      where ih: "importFromJson_loop entries ic u r s1 = Some (True, u', r', s')"
        "m_markerList s' = m_markerList s1" "m_markerPositions s' = m_markerPositions s1"
        "m_guide s' = m_guide s1" "m_undoStack s' = m_undoStack s1"
      by blast
    have "importFromJson_loop (e # entries) ic undo redo s = Some (True, u', r', s')"
      unfolding e importFromJson_loop_step[OF has] p_def[symmetric] cmt_def[symmetric]
        t_def[symmetric] chk
      using a ih(1) by simp
    with ih(2-5) same env1 show ?thesis by simp
  qed
qed

lemma importFromJson_lists:
  assumes "importFromJson_loop entries ic [] [] s = Some (res, u, r, s1)"
    and "pushUndo \<longrightarrow> m_undoStack s1 \<noteq> None"
  shows "\<exists>s'. importFromJson (JArray entries) ic pushUndo s = Some (res, s') \<and>
              m_markerList s' = m_markerList s1 \<and> m_markerPositions s' = m_markerPositions s1 \<and>
              next_id s' = next_id s1"
proof (cases pushUndo)
  case True
  with assms(2) obtain stack where "m_undoStack s1 = Some stack" by auto
  with True assms(1) show ?thesis
    by (simp add: importFromJson_def importFromJson_ur_def PUSH_UNDO_def)
next
  case False
  with assms(1) show ?thesis
    by (simp add: importFromJson_def importFromJson_ur_def)
qed

section \<open>Entries with a type out of range\<close>






section \<open>Serialising markers\<close>

lemma marker_json_fields:
  "marker_json m =
     JObject [(''pos'', JInt (time m)), (''comment'', JString (comment m)),
              (''type'', JInt (markerType m))]"
  "obj_contains [(''pos'', JInt (time m)), (''comment'', JString (comment m)),
                 (''type'', JInt (markerType m))] ''pos''"
  "entry_pos [(''pos'', JInt (time m)), (''comment'', JString (comment m)),
              (''type'', JInt (markerType m))] = time m"
  "entry_comment [(''pos'', JInt (time m)), (''comment'', JString (comment m)),
                  (''type'', JInt (markerType m))] = comment m"
  "0 \<le> markerType m \<Longrightarrow> markerType m < markerTypes_size \<Longrightarrow>
   entry_type [(''pos'', JInt (time m)), (''comment'', JString (comment m)),
               (''type'', JInt (markerType m))] = markerType m"
  by (simp_all add: marker_json_def obj_contains_def entry_pos_def entry_comment_def
      entry_type_def obj_value_def Let_def)

lemma CommentedTime_eta:
  fixes m :: CommentedTime
  shows "\<lparr>time = time m, comment = comment m, markerType = markerType m\<rparr> = m"
  by (cases m) simp

lemma toJson_alt: "toJson s = JArray (map marker_json (map snd (m_markerList s)))"
  by (simp add: toJson_def)

lemma addMarker_ur_appends:
  assumes c: "consistent s" and free: "\<not> hasMarker s (time m)"
    and rng: "0 \<le> markerType m" "markerType m < markerTypes_size"
  shows "\<exists>u r s1. addMarker_ur (time m) (comment m) (markerType m) undo redo s =
                     Some (True, u, r, s1) \<and>
           consistent s1 \<and>
           m_markerList s1 = m_markerList s @ [(next_id s, m)] \<and>
           (\<forall>q. hasMarker s1 q \<longleftrightarrow> q = time m \<or> hasMarker s q) \<and>
           m_undoStack s1 = m_undoStack s \<and> m_guide s1 = m_guide s"
proof -
  let ?s1 = "addSnapPoint (time m)
               (s\<lparr>m_markerList :=
                    om_insert (next_id s)
                      \<lparr>time = time m, comment = comment m, markerType = markerType m\<rparr>
                      (m_markerList s),
                  m_markerPositions := om_insert (time m) (next_id s) (m_markerPositions s),
                  next_id := next_id s + 1,
                  emitted := emitted s @
                    [RowsInserted (int (length (m_markerList s)))
                       (int (length (m_markerList s)))]\<rparr>)"
  from rng have t': "markerType m = (if markerType m = - 1 then default_marker_type s
                                      else markerType m)" by simp
  have run: "addMarker_ur (time m) (comment m) (markerType m) undo redo s =
             Some (True, DeleteMarker (time m) # undo,
               redo @ [AddMarker (time m) (comment m) (markerType m)], ?s1)"
    by (rule addMarker_ur_new[OF free t' rng])
  have c1: "consistent ?s1"
    by (rule consistent_insert[where cmt = "comment m" and s' = "?s1", OF c free rng]) simp_all
  have lt: "\<forall>e\<in>set (m_markerList s). fst e < next_id s"
    using c by (auto simp: consistent_def list_all_iff)
  have L: "m_markerList ?s1 = m_markerList s @ [(next_id s, m)]"
    using om_insert_append[OF lt, of m] by (simp add: CommentedTime_eta)
  have H: "\<forall>q. hasMarker ?s1 q \<longleftrightarrow> q = time m \<or> hasMarker s q"
    by (simp add: hasMarker_def om_contains_def map_of_om_insert)
  from run c1 L H show ?thesis
    by (intro exI[of _ "DeleteMarker (time m) # undo"]
        exI[of _ "redo @ [AddMarker (time m) (comment m) (markerType m)]"] exI[of _ ?s1]) simp
qed

lemma importFromJson_loop_fresh:
  assumes "consistent t" and "distinct (map time ms)"
    and "\<forall>m\<in>set ms. \<not> hasMarker t (time m) \<and> 0 \<le> markerType m \<and>
           markerType m < markerTypes_size"
  shows "\<exists>u r t'. importFromJson_loop (map marker_json ms) ic undo redo t =
                     Some (True, u, r, t') \<and>
           consistent t' \<and>
           map snd (m_markerList t') = map snd (m_markerList t) @ ms \<and>
           m_undoStack t' = m_undoStack t"
  using assms
proof (induction ms arbitrary: t undo redo)
  case Nil
  then show ?case by simp
next
  case (Cons m ms)
  from Cons.prems have c: "consistent t" and free: "\<not> hasMarker t (time m)"
    and rng: "0 \<le> markerType m" "markerType m < markerTypes_size"
    and dist: "distinct (map time ms)" and notin: "time m \<notin> time ` set ms"
    and rest: "\<forall>m'\<in>set ms. \<not> hasMarker t (time m') \<and> 0 \<le> markerType m' \<and>
                 markerType m' < markerTypes_size"
    by auto
  from addMarker_ur_appends[OF c free rng, of undo redo] obtain u r t1
    where add: "addMarker_ur (time m) (comment m) (markerType m) undo redo t =
                  Some (True, u, r, t1)"
      and c1: "consistent t1"
      and L1: "m_markerList t1 = m_markerList t @ [(next_id t, m)]"
      and H1: "\<forall>q. hasMarker t1 q \<longleftrightarrow> q = time m \<or> hasMarker t q"
      and env1: "m_undoStack t1 = m_undoStack t"
    by blast
  have rest1: "\<forall>m'\<in>set ms. \<not> hasMarker t1 (time m') \<and> 0 \<le> markerType m' \<and>
                 markerType m' < markerTypes_size"
  proof (intro ballI)
    fix m' assume m': "m' \<in> set ms"
    with notin have "time m' \<noteq> time m" by (metis imageI)
    with rest m' H1 show "\<not> hasMarker t1 (time m') \<and> 0 \<le> markerType m' \<and>
                 markerType m' < markerTypes_size" by simp
  qed
  from Cons.IH[OF c1 dist rest1, of u r] obtain u' r' t'
    where ih: "importFromJson_loop (map marker_json ms) ic u r t1 = Some (True, u', r', t')"
      "consistent t'" "map snd (m_markerList t') = map snd (m_markerList t1) @ ms"
      "m_undoStack t' = m_undoStack t1"
    by blast
  have chk: "(if \<not> ic \<and> hasMarker t (time m)
              then map_option
                     (\<lambda>oldMarker. comment oldMarker = comment m \<and>
                                   markerType m = markerType oldMarker)
                     (marker t (time m))
              else Some True) = Some True"
    using free by simp
  have hd: "map marker_json (m # ms) =
            JObject [(''pos'', JInt (time m)), (''comment'', JString (comment m)),
                     (''type'', JInt (markerType m))] # map marker_json ms"
    by (simp add: marker_json_def)
  have "importFromJson_loop (map marker_json (m # ms)) ic undo redo t = Some (True, u', r', t')"
    unfolding hd importFromJson_loop_step[OF marker_json_fields(2)]
      marker_json_fields(3,4) marker_json_fields(5)[OF rng] chk
    using add ih(1) by simp
  with ih(2-4) L1 env1 show ?case by simp
qed

lemma toJson_entries_identical:
  assumes "consistent s"
  shows "\<forall>obj. JObject obj \<in> set (map marker_json (map snd (m_markerList s))) \<and>
           obj_contains obj ''pos'' \<longrightarrow>
           \<lparr>time = entry_pos obj, comment = entry_comment obj, markerType = entry_type obj\<rparr>
             \<in> snd ` set (m_markerList s)"
proof (intro allI impI)
  fix obj
  assume a: "JObject obj \<in> set (map marker_json (map snd (m_markerList s))) \<and>
             obj_contains obj ''pos''"
  then obtain e where e: "e \<in> set (m_markerList s)" "JObject obj = marker_json (snd e)"
    by auto
  from assms e(1) have rng: "0 \<le> markerType (snd e)" "markerType (snd e) < markerTypes_size"
    by (auto simp: consistent_def list_all_iff)
  from e(2) have obj: "obj = [(''pos'', JInt (time (snd e))),
                             (''comment'', JString (comment (snd e))),
                             (''type'', JInt (markerType (snd e)))]"
    by (simp add: marker_json_def)
  have "\<lparr>time = entry_pos obj, comment = entry_comment obj, markerType = entry_type obj\<rparr> =
        snd e"
    unfolding obj marker_json_fields(3,4) marker_json_fields(5)[OF rng]
    by (rule CommentedTime_eta)
  with e(1) show "\<lparr>time = entry_pos obj, comment = entry_comment obj,
                   markerType = entry_type obj\<rparr> \<in> snd ` set (m_markerList s)"
    by (simp add: image_iff) (rule bexI[of _ e], simp_all)
qed

text \<open>
  Claim C5. \<^verbatim>\<open>toJson\<close> gives the array of the records (pos, comment, type) of the stored
  markers in the order of the storage. That order is the order of insertion and not the
  order of time: adding a marker at any free position of a consistent list puts its
  record last. Importing the output into an empty consistent list (with or without
  ignoring conflicts, the undo stack alive if an entry is to be pushed) returns true and
  gives a list with the same markers in the same order, hence the same set of markers and
  the same output of \<^verbatim>\<open>toJson\<close>. Importing the output back into the list it was taken
  from returns true as well and leaves the marker storage and the position index as they
  are. The JSON text is not part of the model; the round trip is through the document.
\<close>

theorem toJson_roundtrip:
  assumes "consistent s" and "consistent t" and "m_markerList t = []"
    and "pushUndo \<longrightarrow> m_undoStack t \<noteq> None"
  shows "toJson s = JArray (map marker_json (map snd (m_markerList s))) \<and>
         (\<exists>t'. importFromJson (toJson s) ic pushUndo t = Some (True, t') \<and>
               map snd (m_markerList t') = map snd (m_markerList s) \<and>
               set (map snd (m_markerList t')) = set (map snd (m_markerList s)) \<and>
               toJson t' = toJson s \<and>
               consistent t') \<and>
         (\<forall>p cmt ty. \<not> hasMarker s p \<and> 0 \<le> ty \<and> ty < markerTypes_size \<and>
            m_undoStack s \<noteq> None \<longrightarrow>
            (\<exists>s'. addMarker p cmt ty s = Some (True, s') \<and>
                  toJson s' =
                    JArray (map marker_json (map snd (m_markerList s)) @
                            [marker_json \<lparr>time = p, comment = cmt, markerType = ty\<rparr>]))) \<and>
         ((pushUndo \<longrightarrow> m_undoStack s \<noteq> None) \<longrightarrow>
            (\<exists>s'. importFromJson (toJson s) ic pushUndo s = Some (True, s') \<and>
                  m_markerList s' = m_markerList s \<and>
                  m_markerPositions s' = m_markerPositions s))"
proof (intro conjI allI impI)
  show js: "toJson s = JArray (map marker_json (map snd (m_markerList s)))"
    by (rule toJson_alt)
  have dist: "distinct (map time (map snd (m_markerList s)))"
    using unique_positions_consistent[OF assms(1)] by (simp add: unique_positions_def comp_def)
  have empty: "\<not> hasMarker t q" for q
    using hasMarker_iff_time[OF assms(2), of q] assms(3) by simp
  have ok: "\<forall>m\<in>set (map snd (m_markerList s)). \<not> hasMarker t (time m) \<and> 0 \<le> markerType m \<and>
              markerType m < markerTypes_size"
    using assms(1) empty by (auto simp: consistent_def list_all_iff)
  from importFromJson_loop_fresh[OF assms(2) dist ok, of ic "[]" "[]"] obtain u r t1
    where run: "importFromJson_loop (map marker_json (map snd (m_markerList s))) ic [] [] t =
                  Some (True, u, r, t1)"
      and c1: "consistent t1"
      and L1: "map snd (m_markerList t1) = map snd (m_markerList t) @ map snd (m_markerList s)"
      and env1: "m_undoStack t1 = m_undoStack t"
    by blast
  from importFromJson_lists[OF run, of pushUndo] assms(4) env1 obtain t'
    where imp: "importFromJson (JArray (map marker_json (map snd (m_markerList s)))) ic
                  pushUndo t = Some (True, t')"
      and same: "m_markerList t' = m_markerList t1" "m_markerPositions t' = m_markerPositions t1"
        "next_id t' = next_id t1"
    by auto
  from c1 same have c': "consistent t'" using consistent_cong[of t' t1] by simp
  from L1 same(1) assms(3) have L': "map snd (m_markerList t') = map snd (m_markerList s)"
    by simp
  then have "set (map snd (m_markerList t')) = set (map snd (m_markerList s))" by simp
  moreover from L' have "toJson t' = toJson s" by (simp add: toJson_alt)
  ultimately show "\<exists>t'. importFromJson (toJson s) ic pushUndo t = Some (True, t') \<and>
               map snd (m_markerList t') = map snd (m_markerList s) \<and>
               set (map snd (m_markerList t')) = set (map snd (m_markerList s)) \<and>
               toJson t' = toJson s \<and>
               consistent t'"
    using imp L' c' unfolding js by blast
next
  fix p cmt ty
  assume a: "\<not> hasMarker s p \<and> 0 \<le> ty \<and> ty < markerTypes_size \<and> m_undoStack s \<noteq> None"
  then obtain stack where stack: "m_undoStack s = Some stack" by auto
  let ?m = "\<lparr>time = p, comment = cmt, markerType = ty\<rparr>"
  from a have free: "\<not> hasMarker s (time ?m)" and rng: "0 \<le> markerType ?m"
    "markerType ?m < markerTypes_size" by simp_all
  from addMarker_ur_appends[OF assms(1) free rng, of "[]" "[]"] obtain u r s1
    where add: "addMarker_ur p cmt ty [] [] s = Some (True, u, r, s1)"
      and L1: "m_markerList s1 = m_markerList s @ [(next_id s, ?m)]"
      and env1: "m_undoStack s1 = m_undoStack s"
    by auto
  let ?s' = "s1\<lparr>m_undoStack :=
               Some (stack @
                 [\<lparr>cmd_undo = u, cmd_redo = r,
                   cmd_text = (if m_guide s1 then ''Add guide'' else ''Add marker'')\<rparr>])\<rparr>"
  have "addMarker p cmt ty s = Some (True, ?s')"
    using a add env1 stack by (simp add: addMarker_def PUSH_UNDO_def)
  moreover have "toJson ?s' =
                   JArray (map marker_json (map snd (m_markerList s)) @ [marker_json ?m])"
    using L1 by (simp add: toJson_alt)
  ultimately show "\<exists>s'. addMarker p cmt ty s = Some (True, s') \<and>
                  toJson s' =
                    JArray (map marker_json (map snd (m_markerList s)) @
                            [marker_json \<lparr>time = p, comment = cmt, markerType = ty\<rparr>])"
    by blast
next
  assume u: "pushUndo \<longrightarrow> m_undoStack s \<noteq> None"
  from importFromJson_loop_identical[OF assms(1) toJson_entries_identical[OF assms(1)],
      of ic "[]" "[]"]
  obtain u1 r1 s1
    where run: "importFromJson_loop (map marker_json (map snd (m_markerList s))) ic [] [] s =
                  Some (True, u1, r1, s1)"
      and same: "m_markerList s1 = m_markerList s" "m_markerPositions s1 = m_markerPositions s"
      and env: "m_undoStack s1 = m_undoStack s"
    by (elim exE conjE) (rule that)
  from u env have u': "pushUndo \<longrightarrow> m_undoStack s1 \<noteq> None" by simp
  from importFromJson_lists[OF run u'] obtain s'
    where imp: "importFromJson (JArray (map marker_json (map snd (m_markerList s)))) ic
                  pushUndo s = Some (True, s')"
      and same': "m_markerList s' = m_markerList s1"
        "m_markerPositions s' = m_markerPositions s1"
    by (elim exE conjE) (rule that)
  have L: "m_markerList s' = m_markerList s" using same'(1) same(1) by (rule trans)
  have P: "m_markerPositions s' = m_markerPositions s" using same'(2) same(2) by (rule trans)
  have imp': "importFromJson (toJson s) ic pushUndo s = Some (True, s')"
    unfolding toJson_alt by (fact imp)
  show "\<exists>s'. importFromJson (toJson s) ic pushUndo s = Some (True, s') \<and>
          m_markerList s' = m_markerList s \<and> m_markerPositions s' = m_markerPositions s"
    by (intro exI[of _ s'] conjI) (fact imp' L P)+
qed

theorem toJson_roundtrip_witness:
  "consistent two_markers \<and> consistent no_markers \<and> m_markerList no_markers = [] \<and>
   m_undoStack no_markers \<noteq> None \<and>
   toJson two_markers =
     JArray [JObject [(''pos'', JInt 10), (''comment'', JString ''a''), (''type'', JInt 0)],
             JObject [(''pos'', JInt 20), (''comment'', JString ''b''), (''type'', JInt 1)]] \<and>
   map_option fst (importFromJson (toJson two_markers) False True no_markers) = Some True \<and>
   map_option (map snd \<circ> m_markerList \<circ> snd)
     (importFromJson (toJson two_markers) False True no_markers) =
     Some (map snd (m_markerList two_markers)) \<and>
   \<not> hasMarker two_markers 5 \<and> (0::int) \<le> 3 \<and> 3 < markerTypes_size \<and>
   m_undoStack two_markers \<noteq> None \<and>
   map_option (toJson \<circ> snd) (addMarker 5 ''c'' 3 two_markers) =
     Some (JArray [JObject [(''pos'', JInt 10), (''comment'', JString ''a''), (''type'', JInt 0)],
                   JObject [(''pos'', JInt 20), (''comment'', JString ''b''), (''type'', JInt 1)],
                   JObject [(''pos'', JInt 5), (''comment'', JString ''c''), (''type'', JInt 3)]]) \<and>
   map_option fst (importFromJson (toJson two_markers) False True two_markers) = Some True \<and>
   map_option (m_markerList \<circ> snd)
     (importFromJson (toJson two_markers) False True two_markers) =
     Some (m_markerList two_markers)"
proof -
  have u: "True \<longrightarrow> m_undoStack no_markers \<noteq> None" by (simp add: no_markers_def)
  have e: "m_markerList no_markers = []" by (simp add: no_markers_def)
  have f: "\<not> hasMarker two_markers 5 \<and> (0::int) \<le> 3 \<and> 3 < markerTypes_size \<and>
           m_undoStack two_markers \<noteq> None"
    by (simp add: two_markers_def hasMarker_def om_contains_def markerTypes_size_def)
  note t = toJson_roundtrip[OF consistent_two_markers consistent_no_markers e u, of False]
  from t[THEN conjunct2, THEN conjunct1] obtain t'
    where imp: "importFromJson (toJson two_markers) False True no_markers = Some (True, t')"
      "map snd (m_markerList t') = map snd (m_markerList two_markers)"
    by blast
  have f': "True \<longrightarrow> m_undoStack two_markers \<noteq> None" by (simp add: two_markers_def)
  from t[THEN conjunct2, THEN conjunct2, THEN conjunct2, THEN mp, OF f'] obtain s2
    where rt: "importFromJson (toJson two_markers) False True two_markers = Some (True, s2)"
      "m_markerList s2 = m_markerList two_markers"
    by blast
  from t[THEN conjunct2, THEN conjunct2, THEN conjunct1, THEN spec, THEN spec, THEN spec,
      THEN mp, OF f]
  obtain s' where add: "addMarker 5 ''c'' 3 two_markers = Some (True, s')"
    "toJson s' =
       JArray (map marker_json (map snd (m_markerList two_markers)) @
               [marker_json \<lparr>time = 5, comment = ''c'', markerType = 3\<rparr>])"
    by blast
  have j: "toJson two_markers =
     JArray [JObject [(''pos'', JInt 10), (''comment'', JString ''a''), (''type'', JInt 0)],
             JObject [(''pos'', JInt 20), (''comment'', JString ''b''), (''type'', JInt 1)]]"
    by (simp add: toJson_def two_markers_def marker_json_def)
  have k: "JArray (map marker_json (map snd (m_markerList two_markers)) @
               [marker_json \<lparr>time = 5, comment = ''c'', markerType = 3\<rparr>]) =
     JArray [JObject [(''pos'', JInt 10), (''comment'', JString ''a''), (''type'', JInt 0)],
             JObject [(''pos'', JInt 20), (''comment'', JString ''b''), (''type'', JInt 1)],
             JObject [(''pos'', JInt 5), (''comment'', JString ''c''), (''type'', JInt 3)]]"
    by (simp add: two_markers_def marker_json_def)
  from imp add rt j k consistent_two_markers consistent_no_markers e f
  show ?thesis by (simp add: no_markers_def)
qed

section \<open>Preservation of consistency\<close>

lemma consistent_mono:
  assumes "consistent s" and "m_markerList s' = m_markerList s"
    and "m_markerPositions s' = m_markerPositions s" and "next_id s \<le> next_id s'"
  shows "consistent s'"
proof -
  from assms(1) have a: "sorted_wrt (<) (map fst (m_markerList s))"
    "sorted_wrt (<) (map fst (m_markerPositions s))"
    "set (map (\<lambda>e. (snd e, fst e)) (m_markerPositions s)) =
       set (map (\<lambda>e. (fst e, time (snd e))) (m_markerList s))"
    "0 \<le> next_id s"
    and b: "list_all (\<lambda>e. 0 \<le> fst e \<and> fst e < next_id s \<and>
                     0 \<le> markerType (snd e) \<and> markerType (snd e) < markerTypes_size)
             (m_markerList s)"
    by (simp_all add: consistent_def)
  from b assms(4)
  have "list_all (\<lambda>e. 0 \<le> fst e \<and> fst e < next_id s' \<and>
                     0 \<le> markerType (snd e) \<and> markerType (snd e) < markerTypes_size)
             (m_markerList s)"
    unfolding list_all_iff by fastforce
  with a assms(4) show ?thesis
    unfolding consistent_def assms(2,3) by simp
qed

lemma PUSH_UNDO_fields:
  assumes "PUSH_UNDO u r lbl s = Some s'"
  shows "m_markerList s' = m_markerList s" and "m_markerPositions s' = m_markerPositions s"
    and "next_id s' = next_id s"
  using assms by (auto simp: PUSH_UNDO_def split: option.splits)

lemma PUSH_UNDO_consistent:
  assumes "PUSH_UNDO u r lbl s = Some s'" and "consistent s"
  shows "consistent s'"
  using consistent_cong[OF PUSH_UNDO_fields[OF assms(1)]] assms(2) by simp

lemma addMarker_ur_consistent:
  assumes "consistent s" and "addMarker_ur p cmt ty undo redo s = Some (res, u, r, s')"
  shows "consistent s'" and "res"
proof -
  define ty' where "ty' = (if ty = - 1 then default_marker_type s else ty)"
  have "0 \<le> ty' \<and> ty' < markerTypes_size"
  proof (rule ccontr)
    assume "\<not> (0 \<le> ty' \<and> ty' < markerTypes_size)"
    then have "addMarker_ur p cmt ty undo redo s = None"
      by (simp add: addMarker_ur_def ty'_def[symmetric] Let_def)
    with assms(2) show False by simp
  qed
  then have rng: "0 \<le> ty'" "ty' < markerTypes_size" by simp_all
  from addMarker_ur_effect[OF assms(1) ty'_def rng, of p cmt undo redo] assms(2)
  have "consistent s' \<and> res"
    by (elim exE conjE) simp
  then show "consistent s'" and "res" by simp_all
qed

lemma removeMarker_ur_consistent:
  assumes "consistent s" and "removeMarker_ur p undo redo s = Some (res, u, r, s')"
  shows "consistent s'" and "res \<longleftrightarrow> hasMarker s p"
    and "\<forall>q. hasMarker s' q \<longleftrightarrow> hasMarker s q \<and> (res \<longrightarrow> q \<noteq> p)"
proof -
  have "consistent s' \<and> (res \<longleftrightarrow> hasMarker s p) \<and>
        (\<forall>q. hasMarker s' q \<longleftrightarrow> hasMarker s q \<and> (res \<longrightarrow> q \<noteq> p))"
  proof (cases "hasMarker s p")
    case False
    from assms(2) removeMarker_ur_absent[OF False, of undo redo]
    have "res = False" "s' = s" by simp_all
    with assms(1) False show ?thesis by simp
  next
    case True
    from removeMarker_ur_effect[OF assms(1) True, of undo redo] assms(2)
    have "consistent s' \<and> res \<and>
          snd ` set (m_markerList s') = {m \<in> snd ` set (m_markerList s). time m \<noteq> p}"
      by (elim exE conjE) simp
    then have c': "consistent s'" and res: "res"
      and set': "snd ` set (m_markerList s') = {m \<in> snd ` set (m_markerList s). time m \<noteq> p}"
      by simp_all
    have "hasMarker s' q \<longleftrightarrow> hasMarker s q \<and> q \<noteq> p" for q
    proof -
      have "hasMarker s' q \<longleftrightarrow> q \<in> time ` {m \<in> snd ` set (m_markerList s). time m \<noteq> p}"
        using hasMarker_iff_time[OF c', of q] set' by simp
      also have "\<dots> \<longleftrightarrow> q \<in> time ` snd ` set (m_markerList s) \<and> q \<noteq> p"
        by blast
      finally show ?thesis using hasMarker_iff_time[OF assms(1), of q] by simp
    qed
    with c' res True show ?thesis by simp
  qed
  then show "consistent s'" and "res \<longleftrightarrow> hasMarker s p"
    and "\<forall>q. hasMarker s' q \<longleftrightarrow> hasMarker s q \<and> (res \<longrightarrow> q \<noteq> p)"
    by simp_all
qed

lemma addMarker_consistent:
  assumes "consistent s" and "addMarker p cmt ty s = Some (res, s')"
  shows "consistent s'"
proof -
  from assms(2) obtain r1 u r s1 where a: "addMarker_ur p cmt ty [] [] s = Some (r1, u, r, s1)"
    by (auto simp: addMarker_def Let_def split: option.splits)
  from addMarker_ur_consistent[OF assms(1) a] have c1: "consistent s1" and r1: "r1" by simp_all
  from assms(2) a r1 obtain lbl where "PUSH_UNDO u r lbl s1 = Some s'"
    by (auto simp: addMarker_def Let_def split: if_splits)
  from PUSH_UNDO_consistent[OF this c1] show ?thesis .
qed

lemma removeMarker_consistent:
  assumes "consistent s" and "removeMarker p s = Some (res, s')"
  shows "consistent s'"
proof -
  from assms(2) obtain r1 u r s1 where a: "removeMarker_ur p [] [] s = Some (r1, u, r, s1)"
    by (auto simp: removeMarker_def split: option.splits)
  from removeMarker_ur_consistent(1)[OF assms(1) a] have c1: "consistent s1" .
  show ?thesis
  proof (cases r1)
    case True
    with assms(2) a obtain lbl where "PUSH_UNDO u r lbl s1 = Some s'"
      by (auto simp: removeMarker_def split: if_splits)
    from PUSH_UNDO_consistent[OF this c1] show ?thesis .
  next
    case False
    with assms(2) a have "s' = s1" by (simp add: removeMarker_def)
    with c1 show ?thesis by simp
  qed
qed

lemma editMarker_consistent:
  assumes "consistent s" and "editMarker oldPos pos cmt0 ty0 s = Some (res, s')"
  shows "consistent s'"
proof -
  from assms(2) have has: "hasMarker s oldPos"
    by (auto simp: editMarker_def split: if_splits)
  with assms(2) obtain current where cur: "marker s oldPos = Some current"
    by (auto simp: editMarker_def split: option.splits)
  define cmt where "cmt = (if cmt0 = [] then comment current else cmt0)"
  define ty where "ty = (if ty0 = - 1 then markerType current else ty0)"
  show ?thesis
  proof (cases "oldPos = pos \<and> comment current = cmt \<and> markerType current = ty")
    case True
    with assms(2) has cur have "s' = s"
      by (simp add: editMarker_def Let_def cmt_def ty_def)
    with assms(1) show ?thesis by simp
  next
    case False
    have unf: "editMarker oldPos pos cmt0 ty0 s =
      (case removeMarker_ur oldPos [] [] s of
         None \<Rightarrow> None
       | Some (res1, undo1, redo1, s1) \<Rightarrow>
           (case (if res1 then addMarker_ur pos cmt ty undo1 redo1 s1
                  else Some (res1, undo1, redo1, s1)) of
              None \<Rightarrow> None
            | Some (res, undo, redo, s2) \<Rightarrow>
                if res
                then map_option (Pair res)
                       (PUSH_UNDO undo redo
                          (if m_guide s2 then ''Edit guide'' else ''Edit marker'') s2)
                else
                  (case run_Fun undo s2 of
                     None \<Rightarrow> None
                   | Some (undone, s3) \<Rightarrow> if undone then Some (res, s3) else None)))"
      using has cur
      by (simp add: editMarker_def Let_def cmt_def[symmetric] ty_def[symmetric]
          if_not_P[OF False] split del: if_split)
    from assms(2) obtain res1 u1 r1 s1
      where rm: "removeMarker_ur oldPos [] [] s = Some (res1, u1, r1, s1)"
      unfolding unf by (auto split: option.splits)
    from removeMarker_ur_consistent(1,2)[OF assms(1) rm] has
    have c1: "consistent s1" and res1: "res1" by simp_all
    from assms(2) rm res1 obtain res2 u2 r2 s2
      where add: "addMarker_ur pos cmt ty u1 r1 s1 = Some (res2, u2, r2, s2)"
      unfolding unf by (auto split: option.splits)
    from addMarker_ur_consistent[OF c1 add] have c2: "consistent s2" and res2: "res2" by simp_all
    from assms(2) rm res1 add res2 obtain lbl where "PUSH_UNDO u2 r2 lbl s2 = Some s'"
      unfolding unf by auto
    from PUSH_UNDO_consistent[OF this c2] show ?thesis .
  qed
qed

lemma moveMarker_consistent:
  assumes "consistent s" and "moveMarker mid pos s = Some (res, s')"
  shows "consistent s'"
proof -
  from assms(2) obtain m where m: "map_of (m_markerList s) mid = Some m"
    by (auto simp: moveMarker_def split: option.splits)
  show ?thesis
  proof (cases "hasMarker s pos")
    case True
    with assms m show ?thesis by (simp add: moveMarker_def)
  next
    case False
    from assms(2) m False
    have L: "m_markerList s' = om_insert mid (m\<lparr>time := pos\<rparr>) (m_markerList s)"
      and P: "m_markerPositions s' =
                om_insert pos mid (om_erase (time m) (m_markerPositions s))"
      and n: "next_id s \<le> next_id s'"
      by (auto simp: moveMarker_def Let_def split: option.splits)
    from consistent_move[OF assms(1) m False L P n] show ?thesis .
  qed
qed

lemma moveMarkers_loop_consistent:
  assumes "consistent s"
    and "moveMarkers_loop res0 markers fromPos toPos undo redo s = Some (res, u, r, s')"
  shows "consistent s'"
  using assms
proof (induction markers arbitrary: res0 undo redo s)
  case Nil
  then show ?case by simp
next
  case (Cons m ms)
  from Cons.prems(2) obtain res1 u1 r1 s1
    where rm: "removeMarker_ur (time m) undo redo s = Some (res1, u1, r1, s1)"
    by (auto simp: Let_def split: option.splits)
  from removeMarker_ur_consistent(1)[OF Cons.prems(1) rm] have c1: "consistent s1" .
  show ?case
  proof (cases res1)
    case False
    with Cons.prems(2) rm have "s' = s1" by (simp add: Let_def)
    with c1 show ?thesis by simp
  next
    case True
    with Cons.prems(2) rm obtain res2 u2 r2 s2
      where add: "addMarker_ur (time m + (toPos - fromPos)) (comment m) (markerType m) u1 r1 s1 =
                    Some (res2, u2, r2, s2)"
      by (auto simp: Let_def split: option.splits)
    from addMarker_ur_consistent(1)[OF c1 add] have c2: "consistent s2" .
    from Cons.prems(2) rm True add
    have "moveMarkers_loop res2 ms fromPos toPos u2 r2 s2 = Some (res, u, r, s')"
      by (simp add: Let_def)
    from Cons.IH[OF c2 this] show ?thesis .
  qed
qed

lemma moveMarkers_consistent:
  assumes "consistent s"
    and "moveMarkers markers fromPos toPos undo redo s = Some (res, u, r, s')"
  shows "consistent s'"
proof (cases "int (length markers) \<le> 0")
  case True
  with assms show ?thesis by (simp add: moveMarkers_def)
next
  case False
  with assms(2) have "moveMarkers_loop False markers fromPos toPos undo redo s =
                      Some (res, u, r, s')"
    by (simp add: moveMarkers_def)
  from moveMarkers_loop_consistent[OF assms(1) this] show ?thesis .
qed

lemma removeAllMarkers_loop_consistent:
  assumes "consistent s" and "\<forall>p\<in>set ps. hasMarker s p" and "distinct ps"
    and "removeAllMarkers_loop ps undo redo s = Some (res, u, r, s')"
  shows "consistent s' \<and> res"
  using assms
proof (induction ps arbitrary: undo redo s)
  case Nil
  then show ?case by simp
next
  case (Cons p ps)
  from Cons.prems(4) obtain res1 u1 r1 s1
    where rm: "removeMarker_ur p undo redo s = Some (res1, u1, r1, s1)"
    by (auto split: option.splits)
  from removeMarker_ur_consistent[OF Cons.prems(1) rm] Cons.prems(2)
  have c1: "consistent s1" and res1: "res1"
    and H: "\<forall>q. hasMarker s1 q \<longleftrightarrow> hasMarker s q \<and> q \<noteq> p"
    by simp_all
  from H Cons.prems(2,3) have rest: "\<forall>q\<in>set ps. hasMarker s1 q" by auto
  from Cons.prems(3) have d: "distinct ps" by simp
  from Cons.prems(4) rm res1
  have "removeAllMarkers_loop ps u1 r1 s1 = Some (res, u, r, s')" by simp
  from Cons.IH[OF c1 rest d this] show ?case .
qed

lemma removeAllMarkers_consistent:
  assumes "consistent s" and "removeAllMarkers s = Some (res, s')"
  shows "consistent s'"
proof -
  let ?ps = "map (\<lambda>e. time (snd e)) (m_markerList s)"
  from assms(2) obtain res1 u r s1
    where lp: "removeAllMarkers_loop ?ps [] [] s = Some (res1, u, r, s1)"
    by (auto simp: removeAllMarkers_def Let_def split: option.splits)
  have all: "\<forall>p\<in>set ?ps. hasMarker s p"
    using hasMarker_iff_time[OF assms(1)] by auto
  have d: "distinct ?ps"
    using unique_positions_consistent[OF assms(1)] by (simp add: unique_positions_def)
  from removeAllMarkers_loop_consistent[OF assms(1) all d lp]
  have c1: "consistent s1" and res1: "res1" by simp_all
  from assms(2) lp res1 obtain lbl where "PUSH_UNDO u r lbl s1 = Some s'"
    by (auto simp: removeAllMarkers_def Let_def)
  from PUSH_UNDO_consistent[OF this c1] show ?thesis .
qed

text \<open>
  Claim C4. The operations that go through \<^verbatim>\<open>addMarker_lambda\<close>, \<^verbatim>\<open>deleteMarker_lambda\<close> and
  \<^verbatim>\<open>changeComment_lambda\<close> keep a consistent list consistent (lemmas
  \<open>addMarker_consistent\<close>, \<open>removeMarker_consistent\<close>, \<open>editMarker_consistent\<close>,
  \<open>moveMarker_consistent\<close>, \<open>moveMarkers_consistent\<close>, \<open>removeAllMarkers_consistent\<close>), and
  \<^verbatim>\<open>moveMarker\<close> refuses a target frame that holds a marker. \<^verbatim>\<open>moveMarkersWithoutUndo\<close>
  writes the two containers itself and has no such check. On the consistent list with
  marker 0 at frame 10 and marker 1 at frame 20, moving marker 0 by 10 frames leaves both
  markers at frame 20 in the storage while the position index holds frame 20 for
  marker 0 only. Moving both markers by 10 frames, in the order of their ids, leaves
  marker 0 at frame 20 and marker 1 at frame 30 in the storage, and the position index
  with the one entry of frame 30 for marker 1: the entry of marker 0 was overwritten
  and then erased. In both cases the call returns and the list is no longer consistent.
\<close>

theorem moveMarkersWithoutUndo_breaks_consistency:
  "consistent two_markers \<and> unique_positions two_markers \<and>
   map_option m_markerList (moveMarkersWithoutUndo [0] 10 True two_markers) =
     Some [(0, \<lparr>time = 20, comment = ''a'', markerType = 0\<rparr>),
           (1, \<lparr>time = 20, comment = ''b'', markerType = 1\<rparr>)] \<and>
   map_option m_markerPositions (moveMarkersWithoutUndo [0] 10 True two_markers) =
     Some [(20, 0)] \<and>
   map_option unique_positions (moveMarkersWithoutUndo [0] 10 True two_markers) =
     Some False \<and>
   map_option consistent (moveMarkersWithoutUndo [0] 10 True two_markers) = Some False \<and>
   map_option m_markerList (moveMarkersWithoutUndo [0, 1] 10 False two_markers) =
     Some [(0, \<lparr>time = 20, comment = ''a'', markerType = 0\<rparr>),
           (1, \<lparr>time = 30, comment = ''b'', markerType = 1\<rparr>)] \<and>
   map_option m_markerPositions (moveMarkersWithoutUndo [0, 1] 10 False two_markers) =
     Some [(30, 1)] \<and>
   map_option unique_positions (moveMarkersWithoutUndo [0, 1] 10 False two_markers) =
     Some True \<and>
   map_option consistent (moveMarkersWithoutUndo [0, 1] 10 False two_markers) = Some False \<and>
   map_option fst (moveMarker 0 20 two_markers) = Some False"
proof -
  have a: "moveMarkersWithoutUndo [0] 10 True two_markers =
     Some (two_markers\<lparr>m_markerList := [(0, \<lparr>time = 20, comment = ''a'', markerType = 0\<rparr>),
                                         (1, \<lparr>time = 20, comment = ''b'', markerType = 1\<rparr>)],
                        m_markerPositions := [(20, 0)],
                        emitted := [DataChanged 0 0 [FrameRole]]\<rparr>)"
    by (simp add: moveMarkersWithoutUndo_def two_markers_def getRowfromId_def om_erase_def
        Let_def)
  have b: "moveMarkersWithoutUndo [0, 1] 10 False two_markers =
     Some (two_markers\<lparr>m_markerList := [(0, \<lparr>time = 20, comment = ''a'', markerType = 0\<rparr>),
                                         (1, \<lparr>time = 30, comment = ''b'', markerType = 1\<rparr>)],
                        m_markerPositions := [(30, 1)]\<rparr>)"
    by (simp add: moveMarkersWithoutUndo_def two_markers_def om_erase_def Let_def)
  have c: "map_option fst (moveMarker 0 20 two_markers) = Some False"
    by (simp add: moveMarker_def two_markers_def hasMarker_def om_contains_def
        getRowfromId_def Let_def)
  have u: "unique_positions two_markers"
    by (simp add: unique_positions_def two_markers_def)
  show ?thesis
    unfolding a b
    using c u consistent_two_markers
    by (simp add: consistent_def unique_positions_def two_markers_def)
qed

section \<open>Conflicts during an import\<close>

lemma addMarker_ur_sim:
  assumes c: "consistent a"
    and eqL: "m_markerList b = m_markerList a"
    and eqP: "m_markerPositions b = m_markerPositions a"
    and eqN: "next_id b = next_id a"
    and rng: "0 \<le> t" "t < markerTypes_size"
  shows "\<exists>ua' ra' a1 ub' rb' b1.
           addMarker_ur p cmt t ua ra a = Some (True, ua', ra', a1) \<and>
           addMarker_ur p cmt t ub rb b = Some (True, ub', rb', b1) \<and>
           m_markerList b1 = m_markerList a1 \<and>
           m_markerPositions b1 = m_markerPositions a1 \<and>
           next_id b1 = next_id a1"
proof -
  from c eqL eqP eqN have cb: "consistent b" using consistent_cong[of b a] by simp
  from rng have ta: "t = (if t = - 1 then default_marker_type a else t)"
    and tb: "t = (if t = - 1 then default_marker_type b else t)" by simp_all
  show ?thesis
  proof (cases "hasMarker a p")
    case True
    then obtain mid where look: "map_of (m_markerPositions a) p = Some mid"
      by (auto simp: hasMarker_lookup)
    from lookup_queries(4)[OF c look] obtain old
      where old: "map_of (m_markerList a) mid = Some old" by auto
    from look eqP have lookb: "map_of (m_markerPositions b) p = Some mid" by simp
    from old eqL have oldb: "map_of (m_markerList b) mid = Some old" by simp
    note ra = addMarker_ur_rename[OF c look old ta rng, of cmt ua ra]
    note rb = addMarker_ur_rename[OF cb lookb oldb tb rng, of cmt ub rb]
    show ?thesis
      unfolding ra rb by (simp add: eqL eqP eqN)
  next
    case False
    with eqP have Fb: "\<not> hasMarker b p" by (simp add: hasMarker_def)
    note ra = addMarker_ur_new[OF False ta rng, of cmt ua ra]
    note rb = addMarker_ur_new[OF Fb tb rng, of cmt ub rb]
    show ?thesis
      unfolding ra rb by (simp add: eqL eqP eqN)
  qed
qed

lemma addMarker_ur_existing_next_id:
  assumes c: "consistent s" and has: "hasMarker s p"
    and rng: "0 \<le> t" "t < markerTypes_size"
    and run: "addMarker_ur p cmt t undo redo s = Some (res, u, r, s')"
  shows "next_id s' = next_id s"
proof -
  from has obtain mid where look: "map_of (m_markerPositions s) p = Some mid"
    by (auto simp: hasMarker_lookup)
  from lookup_queries(4)[OF c look] obtain old
    where old: "map_of (m_markerList s) mid = Some old" by auto
  from rng have t': "t = (if t = - 1 then default_marker_type s else t)" by simp
  from run show ?thesis
    unfolding addMarker_ur_rename[OF c look old t' rng, of cmt undo redo] by auto
qed

lemma import_step_both:
  assumes ca: "consistent a" and rba: "rolls_back ua a L0 P0" and rbb: "rolls_back ub b L0 P0"
    and eqL: "m_markerList b = m_markerList a"
    and eqP: "m_markerPositions b = m_markerPositions a"
    and eqN: "next_id b = next_id a"
    and rng: "0 \<le> t" "t < markerTypes_size"
  shows "\<exists>ua' ra' a1 ub' rb' b1.
           addMarker_ur p cmt t ua ra a = Some (True, ua', ra', a1) \<and>
           addMarker_ur p cmt t ub rb b = Some (True, ub', rb', b1) \<and>
           m_markerList b1 = m_markerList a1 \<and>
           m_markerPositions b1 = m_markerPositions a1 \<and>
           next_id b1 = next_id a1 \<and>
           consistent a1 \<and> rolls_back ua' a1 L0 P0 \<and> rolls_back ub' b1 L0 P0 \<and>
           m_undoStack a1 = m_undoStack a \<and> m_undoStack b1 = m_undoStack b"
proof -
  from ca eqL eqP eqN have cb: "consistent b" using consistent_cong[of b a] by simp
  from addMarker_ur_sim[OF ca eqL eqP eqN rng, of p cmt ua ra ub rb] obtain ua' ra' a1 ub' rb' b1
    where A: "addMarker_ur p cmt t ua ra a = Some (True, ua', ra', a1)"
      and B: "addMarker_ur p cmt t ub rb b = Some (True, ub', rb', b1)"
      and E: "m_markerList b1 = m_markerList a1" "m_markerPositions b1 = m_markerPositions a1"
        "next_id b1 = next_id a1"
    by blast
  from addMarker_ur_import_step[OF ca rba rng, of p cmt ra] A
  have FA: "consistent a1 \<and> rolls_back ua' a1 L0 P0 \<and> m_undoStack a1 = m_undoStack a"
    by (elim exE conjE) simp
  from addMarker_ur_import_step[OF cb rbb rng, of p cmt rb] B
  have FB: "rolls_back ub' b1 L0 P0 \<and> m_undoStack b1 = m_undoStack b"
    by (elim exE conjE) simp
  from FA have f1: "consistent a1" and f2: "rolls_back ua' a1 L0 P0"
    and f3: "m_undoStack a1 = m_undoStack a" by simp_all
  from FB have f4: "rolls_back ub' b1 L0 P0" and f5: "m_undoStack b1 = m_undoStack b"
    by simp_all
  show ?thesis
    by (intro exI[of _ ua'] exI[of _ ra'] exI[of _ a1] exI[of _ ub'] exI[of _ rb'] exI[of _ b1]
        conjI) (fact A B E f1 f2 f3 f4 f5)+
qed

lemma importFromJson_loop_sim:
  assumes "consistent a" and "rolls_back ua a L0 P0" and "rolls_back ub b L0 P0"
    and "m_markerList b = m_markerList a"
    and "m_markerPositions b = m_markerPositions a"
    and "next_id b = next_id a"
  shows "\<exists>res ua' ra' a' ub' rb' b'.
           importFromJson_loop entries ic ua ra a = Some (res, ua', ra', a') \<and>
           importFromJson_loop entries ic ub rb b = Some (res, ub', rb', b') \<and>
           m_markerList b' = m_markerList a' \<and>
           m_markerPositions b' = m_markerPositions a' \<and>
           m_undoStack a' = m_undoStack a \<and> m_undoStack b' = m_undoStack b"
  using assms
proof (induction entries arbitrary: a b ua ub ra rb)
  case Nil
  show ?case
    by (intro exI[of _ True] exI[of _ ua] exI[of _ ra] exI[of _ a] exI[of _ ub] exI[of _ rb]
        exI[of _ b]) (simp add: Nil.prems)
next
  case (Cons e entries)
  note ca = Cons.prems(1) and rba = Cons.prems(2) and rbb = Cons.prems(3)
    and eqL = Cons.prems(4) and eqP = Cons.prems(5) and eqN = Cons.prems(6)
  from ca eqL eqP eqN have cb: "consistent b" using consistent_cong[of b a] by simp
  show ?case
  proof (cases "\<exists>obj. e = JObject obj \<and> obj_contains obj ''pos''")
    case False
    then have sk: "\<forall>obj. e = JObject obj \<longrightarrow> \<not> obj_contains obj ''pos''" by blast
    show ?thesis
      unfolding importFromJson_loop_skip[OF sk]
      by (rule Cons.IH[OF ca rba rbb eqL eqP eqN])
  next
    case True
    then obtain obj where e: "e = JObject obj" and has: "obj_contains obj ''pos''" by blast
    define p where "p = entry_pos obj"
    define cmt where "cmt = entry_comment obj"
    define t where "t = entry_type obj"
    define ok where "ok \<longleftrightarrow> ic \<or> (\<forall>old\<in>snd ` set (m_markerList a).
                       time old = p \<longrightarrow> comment old = cmt \<and> t = markerType old)"
    have rng: "0 \<le> t" "t < markerTypes_size"
      unfolding t_def by (rule entry_type_range)+
    have chka: "(if \<not> ic \<and> hasMarker a p
                then map_option (\<lambda>oldMarker. comment oldMarker = cmt \<and> t = markerType oldMarker)
                       (marker a p)
                else Some True) = Some ok"
      unfolding ok_def by (rule conflict_check[OF ca])
    have chkb: "(if \<not> ic \<and> hasMarker b p
                then map_option (\<lambda>oldMarker. comment oldMarker = cmt \<and> t = markerType oldMarker)
                       (marker b p)
                else Some True) = Some ok"
      unfolding ok_def eqL[symmetric] by (rule conflict_check[OF cb])
    have stepa: "importFromJson_loop (e # entries) ic ua ra a =
       (case (if ok then addMarker_ur p cmt t ua ra a else Some (False, ua, ra, a)) of
          None \<Rightarrow> None
        | Some (res, undo', redo', s') \<Rightarrow>
            if \<not> res
            then (case run_Fun undo' s' of
                    None \<Rightarrow> None
                  | Some (undone, s'') \<Rightarrow>
                      if undone then Some (False, undo', redo', s'') else None)
            else importFromJson_loop entries ic undo' redo' s')"
      unfolding e importFromJson_loop_step[OF has] p_def[symmetric] cmt_def[symmetric]
        t_def[symmetric] chka
      by simp
    have stepb: "importFromJson_loop (e # entries) ic ub rb b =
       (case (if ok then addMarker_ur p cmt t ub rb b else Some (False, ub, rb, b)) of
          None \<Rightarrow> None
        | Some (res, undo', redo', s') \<Rightarrow>
            if \<not> res
            then (case run_Fun undo' s' of
                    None \<Rightarrow> None
                  | Some (undone, s'') \<Rightarrow>
                      if undone then Some (False, undo', redo', s'') else None)
            else importFromJson_loop entries ic undo' redo' s')"
      unfolding e importFromJson_loop_step[OF has] p_def[symmetric] cmt_def[symmetric]
        t_def[symmetric] chkb
      by simp
    show ?thesis
    proof (cases ok)
      case False
      from rba obtain a2 where a2: "run_Fun ua a = Some (True, a2)"
        "m_markerList a2 = L0" "m_markerPositions a2 = P0"
        unfolding rolls_back_def by blast
      from rbb obtain b2 where b2: "run_Fun ub b = Some (True, b2)"
        "m_markerList b2 = L0" "m_markerPositions b2 = P0"
        unfolding rolls_back_def by blast
      from run_Fun_env[OF a2(1)] have enva: "m_undoStack a2 = m_undoStack a" by simp
      from run_Fun_env[OF b2(1)] have envb: "m_undoStack b2 = m_undoStack b" by simp
      have runa: "importFromJson_loop (e # entries) ic ua ra a = Some (False, ua, ra, a2)"
        unfolding stepa using False a2(1) by simp
      have runb: "importFromJson_loop (e # entries) ic ub rb b = Some (False, ub, rb, b2)"
        unfolding stepb using False b2(1) by simp
      have eL: "m_markerList b2 = m_markerList a2" using a2(2) b2(2) by simp
      have eP: "m_markerPositions b2 = m_markerPositions a2" using a2(3) b2(3) by simp
      show ?thesis
        by (intro exI[of _ False] exI[of _ ua] exI[of _ ra] exI[of _ a2] exI[of _ ub]
            exI[of _ rb] exI[of _ b2] conjI) (fact runa runb eL eP enva envb)+
    next
      case True
      from import_step_both[OF ca rba rbb eqL eqP eqN rng, of p cmt ra rb]
      obtain ua1 ra1 a1 ub1 rb1 b1
        where A: "addMarker_ur p cmt t ua ra a = Some (True, ua1, ra1, a1)"
          and B: "addMarker_ur p cmt t ub rb b = Some (True, ub1, rb1, b1)"
          and E: "m_markerList b1 = m_markerList a1" "m_markerPositions b1 = m_markerPositions a1"
            "next_id b1 = next_id a1"
          and F: "consistent a1" "rolls_back ua1 a1 L0 P0" "rolls_back ub1 b1 L0 P0"
          and G: "m_undoStack a1 = m_undoStack a" "m_undoStack b1 = m_undoStack b"
        by (elim exE conjE) (rule that)
      from Cons.IH[OF F E, of ra1 rb1] obtain res ua' ra' a' ub' rb' b'
        where ih: "importFromJson_loop entries ic ua1 ra1 a1 = Some (res, ua', ra', a')"
          "importFromJson_loop entries ic ub1 rb1 b1 = Some (res, ub', rb', b')"
          "m_markerList b' = m_markerList a'" "m_markerPositions b' = m_markerPositions a'"
          "m_undoStack a' = m_undoStack a1" "m_undoStack b' = m_undoStack b1"
        by (elim exE conjE) (rule that)
      have runa: "importFromJson_loop (e # entries) ic ua ra a = Some (res, ua', ra', a')"
        unfolding stepa using True A ih(1) by simp
      have runb: "importFromJson_loop (e # entries) ic ub rb b = Some (res, ub', rb', b')"
        unfolding stepb using True B ih(2) by simp
      from ih(5) G(1) have enva: "m_undoStack a' = m_undoStack a" by simp
      from ih(6) G(2) have envb: "m_undoStack b' = m_undoStack b" by simp
      show ?thesis
        by (intro exI[of _ res] exI[of _ ua'] exI[of _ ra'] exI[of _ a'] exI[of _ ub']
            exI[of _ rb'] exI[of _ b'] conjI) (fact runa runb ih(3,4) enva envb)+
    qed
  qed
qed

lemma identical_record_step:
  assumes c: "consistent s" and has: "obj_contains obj ''pos''"
    and mem: "\<lparr>time = entry_pos obj, comment = entry_comment obj, markerType = entry_type obj\<rparr>
               \<in> snd ` set (m_markerList s)"
    and rb: "rolls_back undo s L0 P0"
  shows "\<exists>u r s1. importFromJson_loop (JObject obj # rest) ic undo redo s =
                     importFromJson_loop rest ic u r s1 \<and>
           m_markerList s1 = m_markerList s \<and> m_markerPositions s1 = m_markerPositions s \<and>
           next_id s1 = next_id s \<and> m_undoStack s1 = m_undoStack s \<and>
           consistent s1 \<and> rolls_back u s1 L0 P0"
proof -
  define p where "p = entry_pos obj"
  define cmt where "cmt = entry_comment obj"
  define t where "t = entry_type obj"
  have rng: "0 \<le> t" "t < markerTypes_size"
    unfolding t_def by (rule entry_type_range)+
  from mem marker_iff_member[OF c, of p "\<lparr>time = p, comment = cmt, markerType = t\<rparr>"]
  have hm: "hasMarker s p" "marker s p = Some \<lparr>time = p, comment = cmt, markerType = t\<rparr>"
    unfolding p_def cmt_def t_def by simp_all
  have chk: "(if \<not> ic \<and> hasMarker s p
              then map_option (\<lambda>oldMarker. comment oldMarker = cmt \<and> t = markerType oldMarker)
                     (marker s p)
              else Some True) = Some True"
    using hm by simp
  from addMarker_ur_identical[OF c rng hm, of undo redo] obtain s1 u r
    where a: "addMarker_ur p cmt t undo redo s = Some (True, u, r, s1)"
      and c1: "consistent s1"
      and same: "m_markerList s1 = m_markerList s" "m_markerPositions s1 = m_markerPositions s"
      and env: "m_undoStack s1 = m_undoStack s"
    by blast
  from addMarker_ur_existing_next_id[OF c hm(1) rng a] have n: "next_id s1 = next_id s" .
  from addMarker_ur_import_step[OF c rb rng, of p cmt redo] a
  have rb1: "rolls_back u s1 L0 P0"
    by (elim exE conjE) simp
  have run: "importFromJson_loop (JObject obj # rest) ic undo redo s =
             importFromJson_loop rest ic u r s1"
    unfolding importFromJson_loop_step[OF has] p_def[symmetric] cmt_def[symmetric]
      t_def[symmetric] chk
    using a by simp
  show ?thesis
    by (intro exI[of _ u] exI[of _ r] exI[of _ s1] conjI) (fact run same n env c1 rb1)+
qed

lemma identical_record_anywhere:
  assumes c: "consistent s" and u: "pushUndo \<longrightarrow> m_undoStack s \<noteq> None"
    and has: "obj_contains obj ''pos''"
    and mem: "\<lparr>time = entry_pos obj, comment = entry_comment obj, markerType = entry_type obj\<rparr>
               \<in> snd ` set (m_markerList s)"
  shows "\<exists>res sa sb.
           importFromJson (JArray (pre @ JObject obj # post)) False pushUndo s = Some (res, sa) \<and>
           importFromJson (JArray (pre @ post)) False pushUndo s = Some (res, sb) \<and>
           m_markerList sa = m_markerList sb \<and>
           m_markerPositions sa = m_markerPositions sb"
proof -
  from importFromJson_loop_no_ignore[OF c rolls_back_Nil subset_refl, of pre "[]"]
  obtain rp up rdp sp
    where lp: "importFromJson_loop pre False [] [] s = Some (rp, up, rdp, sp)"
      and envp: "m_undoStack sp = m_undoStack s"
      and succ: "rp \<longrightarrow> consistent sp \<and>
                   rolls_back up sp (m_markerList s) (m_markerPositions s) \<and>
                   snd ` set (m_markerList s) \<subseteq> snd ` set (m_markerList sp)"
    by (elim exE conjE) (rule that)
  show ?thesis
  proof (cases rp)
    case False
    have la: "importFromJson_loop (pre @ JObject obj # post) False [] [] s =
              Some (False, up, rdp, sp)"
      unfolding importFromJson_loop_append[of pre "JObject obj # post"] lp using False by simp
    have lb: "importFromJson_loop (pre @ post) False [] [] s = Some (False, up, rdp, sp)"
      unfolding importFromJson_loop_append[of pre post] lp using False by simp
    from u envp have up': "pushUndo \<longrightarrow> m_undoStack sp \<noteq> None" by simp
    from importFromJson_lists[OF la up'] obtain sa
      where a: "importFromJson (JArray (pre @ JObject obj # post)) False pushUndo s =
                  Some (False, sa)"
        "m_markerList sa = m_markerList sp" "m_markerPositions sa = m_markerPositions sp"
      by (elim exE conjE) (rule that)
    from importFromJson_lists[OF lb up'] obtain sb
      where b: "importFromJson (JArray (pre @ post)) False pushUndo s = Some (False, sb)"
        "m_markerList sb = m_markerList sp" "m_markerPositions sb = m_markerPositions sp"
      by (elim exE conjE) (rule that)
    from a(2) b(2) have eL: "m_markerList sa = m_markerList sb" by simp
    from a(3) b(3) have eP: "m_markerPositions sa = m_markerPositions sb" by simp
    show ?thesis
      by (intro exI[of _ False] exI[of _ sa] exI[of _ sb] conjI) (fact a(1) b(1) eL eP)+
  next
    case True
    with succ have csp: "consistent sp"
      and rbp: "rolls_back up sp (m_markerList s) (m_markerPositions s)"
      and sub: "snd ` set (m_markerList s) \<subseteq> snd ` set (m_markerList sp)"
      by simp_all
    from mem sub
    have memp: "\<lparr>time = entry_pos obj, comment = entry_comment obj,
                  markerType = entry_type obj\<rparr> \<in> snd ` set (m_markerList sp)"
      by (rule set_mp[rotated])
    from identical_record_step[OF csp has memp rbp, of post False rdp] obtain u1 r1 s1
      where st: "importFromJson_loop (JObject obj # post) False up rdp sp =
                 importFromJson_loop post False u1 r1 s1"
        and same: "m_markerList s1 = m_markerList sp" "m_markerPositions s1 = m_markerPositions sp"
          "next_id s1 = next_id sp"
        and env1: "m_undoStack s1 = m_undoStack sp"
        and rb1: "rolls_back u1 s1 (m_markerList s) (m_markerPositions s)"
      by (elim exE conjE) (rule that)
    from importFromJson_loop_sim[OF csp rbp rb1 same, of post False rdp r1]
    obtain res ua' ra' a' ub' rb' b'
      where sim: "importFromJson_loop post False up rdp sp = Some (res, ua', ra', a')"
        "importFromJson_loop post False u1 r1 s1 = Some (res, ub', rb', b')"
        "m_markerList b' = m_markerList a'" "m_markerPositions b' = m_markerPositions a'"
        "m_undoStack a' = m_undoStack sp" "m_undoStack b' = m_undoStack s1"
      by (elim exE conjE) (rule that)
    have la: "importFromJson_loop (pre @ JObject obj # post) False [] [] s =
              Some (res, ub', rb', b')"
      unfolding importFromJson_loop_append[of pre "JObject obj # post"] lp
      using True st sim(2) by simp
    have lb: "importFromJson_loop (pre @ post) False [] [] s = Some (res, ua', ra', a')"
      unfolding importFromJson_loop_append[of pre post] lp using True sim(1) by simp
    from u envp env1 sim(5,6) have ua: "pushUndo \<longrightarrow> m_undoStack b' \<noteq> None"
      and ub: "pushUndo \<longrightarrow> m_undoStack a' \<noteq> None" by simp_all
    from importFromJson_lists[OF la ua] obtain sa
      where a: "importFromJson (JArray (pre @ JObject obj # post)) False pushUndo s =
                  Some (res, sa)"
        "m_markerList sa = m_markerList b'" "m_markerPositions sa = m_markerPositions b'"
      by (elim exE conjE) (rule that)
    from importFromJson_lists[OF lb ub] obtain sb
      where b: "importFromJson (JArray (pre @ post)) False pushUndo s = Some (res, sb)"
        "m_markerList sb = m_markerList a'" "m_markerPositions sb = m_markerPositions a'"
      by (elim exE conjE) (rule that)
    from a(2) b(2) sim(3) have eL: "m_markerList sa = m_markerList sb" by simp
    from a(3) b(3) sim(4) have eP: "m_markerPositions sa = m_markerPositions sb" by simp
    show ?thesis
      by (intro exI[of _ res] exI[of _ sa] exI[of _ sb] conjI) (fact a(1) b(1) eL eP)+
  qed
qed

lemma identical_record_accepted:
  assumes c: "consistent s" and has: "obj_contains obj ''pos''"
    and mem: "\<lparr>time = entry_pos obj, comment = entry_comment obj, markerType = entry_type obj\<rparr>
               \<in> snd ` set (m_markerList s)"
  shows "\<exists>u r s1. importFromJson_loop (JObject obj # rest) ic undo redo s =
                     importFromJson_loop rest ic u r s1 \<and>
           m_markerList s1 = m_markerList s \<and> m_markerPositions s1 = m_markerPositions s \<and>
           consistent s1"
proof -
  define p where "p = entry_pos obj"
  define cmt where "cmt = entry_comment obj"
  define t where "t = entry_type obj"
  have rng: "0 \<le> t" "t < markerTypes_size"
    unfolding t_def by (rule entry_type_range)+
  from mem marker_iff_member[OF c, of p "\<lparr>time = p, comment = cmt, markerType = t\<rparr>"]
  have hm: "hasMarker s p" "marker s p = Some \<lparr>time = p, comment = cmt, markerType = t\<rparr>"
    unfolding p_def cmt_def t_def by simp_all
  have chk: "(if \<not> ic \<and> hasMarker s p
              then map_option (\<lambda>oldMarker. comment oldMarker = cmt \<and> t = markerType oldMarker)
                     (marker s p)
              else Some True) = Some True"
    using hm by simp
  from addMarker_ur_identical[OF c rng hm, of undo redo] obtain s1 u r
    where a: "addMarker_ur p cmt t undo redo s = Some (True, u, r, s1)"
      and c1: "consistent s1"
      and same: "m_markerList s1 = m_markerList s" "m_markerPositions s1 = m_markerPositions s"
    by blast
  have run: "importFromJson_loop (JObject obj # rest) ic undo redo s =
             importFromJson_loop rest ic u r s1"
    unfolding importFromJson_loop_step[OF has] p_def[symmetric] cmt_def[symmetric]
      t_def[symmetric] chk
    using a by simp
  show ?thesis
    by (intro exI[of _ u] exI[of _ r] exI[of _ s1] conjI) (fact run same c1)+
qed

text \<open>
  Claim C2. For a consistent list (the undo stack alive if an undo entry is to be
  pushed) and any array of entries, \<^verbatim>\<open>importFromJson\<close> with \<^verbatim>\<open>ignoreConflicts = false\<close>
  returns false with the marker storage and the position index as they were before the
  call whenever some entry with a position finds a marker of the list at that position
  with a different comment or type; comment and type of an entry are the values the
  import reads, with its defaults. An entry that is identical to a marker of the list
  is accepted wherever it stands in whatever array: the import returns the same result,
  with the same two containers, as for the array without that entry. At the entry
  itself, in any state the loop is in, the loop goes on to the rest of the array with
  both containers as they are. In particular, if every entry that has a position is
  identical to a marker of the list, the import returns true and the two containers
  are as before. An entry that is not an object or has no position is skipped: the
  import behaves as if the entry were not in the array.
\<close>

theorem importFromJson_conflict_aborts:
  assumes "consistent s" and "pushUndo \<longrightarrow> m_undoStack s \<noteq> None"
  shows "((\<exists>obj. JObject obj \<in> set entries \<and> conflicting (m_markerList s) obj) \<longrightarrow>
            (\<exists>s'. importFromJson (JArray entries) False pushUndo s = Some (False, s') \<and>
                  m_markerList s' = m_markerList s \<and>
                  m_markerPositions s' = m_markerPositions s)) \<and>
         ((\<forall>obj. JObject obj \<in> set entries \<and> obj_contains obj ''pos'' \<longrightarrow>
             \<lparr>time = entry_pos obj, comment = entry_comment obj, markerType = entry_type obj\<rparr>
               \<in> snd ` set (m_markerList s)) \<longrightarrow>
            (\<exists>s'. importFromJson (JArray entries) False pushUndo s = Some (True, s') \<and>
                  m_markerList s' = m_markerList s \<and>
                  m_markerPositions s' = m_markerPositions s)) \<and>
         ((\<forall>obj. e = JObject obj \<longrightarrow> \<not> obj_contains obj ''pos'') \<longrightarrow>
            importFromJson (JArray (pre @ e # post)) ic pushUndo s =
            importFromJson (JArray (pre @ post)) ic pushUndo s) \<and>
         (obj_contains rec ''pos'' \<and>
          \<lparr>time = entry_pos rec, comment = entry_comment rec, markerType = entry_type rec\<rparr>
            \<in> snd ` set (m_markerList s) \<longrightarrow>
            (\<exists>res sa sb.
               importFromJson (JArray (pre @ JObject rec # post)) False pushUndo s =
                 Some (res, sa) \<and>
               importFromJson (JArray (pre @ post)) False pushUndo s = Some (res, sb) \<and>
               m_markerList sa = m_markerList sb \<and>
               m_markerPositions sa = m_markerPositions sb)) \<and>
         (\<forall>s2 undo redo rest.
            consistent s2 \<and> obj_contains rec ''pos'' \<and>
            \<lparr>time = entry_pos rec, comment = entry_comment rec, markerType = entry_type rec\<rparr>
              \<in> snd ` set (m_markerList s2) \<longrightarrow>
            (\<exists>u r s3.
               importFromJson_loop (JObject rec # rest) ic undo redo s2 =
                 importFromJson_loop rest ic u r s3 \<and>
               m_markerList s3 = m_markerList s2 \<and>
               m_markerPositions s3 = m_markerPositions s2 \<and>
               consistent s3))"
proof (intro conjI impI allI)
  assume cf: "\<exists>obj. JObject obj \<in> set entries \<and> conflicting (m_markerList s) obj"
  from importFromJson_loop_no_ignore[OF assms(1) rolls_back_Nil subset_refl, of entries "[]"]
  obtain res u r s1 where run0: "importFromJson_loop entries False [] [] s = Some (res, u, r, s1)"
    and same0: "\<not> res \<longrightarrow>
                m_markerList s1 = m_markerList s \<and> m_markerPositions s1 = m_markerPositions s"
    and neg: "(\<exists>obj. JObject obj \<in> set entries \<and> conflicting (m_markerList s) obj) \<longrightarrow> \<not> res"
    and env: "m_undoStack s1 = m_undoStack s"
    by (elim exE conjE) (rule that)
  from neg cf have "\<not> res" by (rule mp)
  with run0 same0 have run: "importFromJson_loop entries False [] [] s = Some (False, u, r, s1)"
    and same: "m_markerList s1 = m_markerList s" "m_markerPositions s1 = m_markerPositions s"
    by simp_all
  from importFromJson_lists[OF run, of pushUndo] assms(2) env same
  show "\<exists>s'. importFromJson (JArray entries) False pushUndo s = Some (False, s') \<and>
          m_markerList s' = m_markerList s \<and> m_markerPositions s' = m_markerPositions s"
    by auto
next
  assume idn: "\<forall>obj. JObject obj \<in> set entries \<and> obj_contains obj ''pos'' \<longrightarrow>
             \<lparr>time = entry_pos obj, comment = entry_comment obj, markerType = entry_type obj\<rparr>
               \<in> snd ` set (m_markerList s)"
  from importFromJson_loop_identical[OF assms(1) idn, of False "[]" "[]"]
  obtain u r s1 where run: "importFromJson_loop entries False [] [] s = Some (True, u, r, s1)"
    and same: "m_markerList s1 = m_markerList s" "m_markerPositions s1 = m_markerPositions s"
    and env: "m_undoStack s1 = m_undoStack s"
    by blast
  from importFromJson_lists[OF run, of pushUndo] assms(2) env same
  show "\<exists>s'. importFromJson (JArray entries) False pushUndo s = Some (True, s') \<and>
          m_markerList s' = m_markerList s \<and> m_markerPositions s' = m_markerPositions s"
    by auto
next
  assume sk: "\<forall>obj. e = JObject obj \<longrightarrow> \<not> obj_contains obj ''pos''"
  have "importFromJson_loop (pre @ e # post) ic [] [] s =
        importFromJson_loop (pre @ post) ic [] [] s"
    unfolding importFromJson_loop_append[of pre "e # post"]
      importFromJson_loop_append[of pre post] importFromJson_loop_skip[OF sk]
    by (rule refl)
  then show "importFromJson (JArray (pre @ e # post)) ic pushUndo s =
             importFromJson (JArray (pre @ post)) ic pushUndo s"
    by (simp add: importFromJson_def importFromJson_ur_def)
next
  assume a: "obj_contains rec ''pos'' \<and>
          \<lparr>time = entry_pos rec, comment = entry_comment rec, markerType = entry_type rec\<rparr>
            \<in> snd ` set (m_markerList s)"
  then have has: "obj_contains rec ''pos''"
    and mem: "\<lparr>time = entry_pos rec, comment = entry_comment rec, markerType = entry_type rec\<rparr>
            \<in> snd ` set (m_markerList s)" by simp_all
  show "\<exists>res sa sb.
          importFromJson (JArray (pre @ JObject rec # post)) False pushUndo s = Some (res, sa) \<and>
          importFromJson (JArray (pre @ post)) False pushUndo s = Some (res, sb) \<and>
          m_markerList sa = m_markerList sb \<and>
          m_markerPositions sa = m_markerPositions sb"
    by (rule identical_record_anywhere[OF assms has mem])
next
  fix s2 :: MarkerListModel and undo redo rest
  assume a: "consistent s2 \<and> obj_contains rec ''pos'' \<and>
            \<lparr>time = entry_pos rec, comment = entry_comment rec, markerType = entry_type rec\<rparr>
              \<in> snd ` set (m_markerList s2)"
  then have c2: "consistent s2" and has: "obj_contains rec ''pos''"
    and mem: "\<lparr>time = entry_pos rec, comment = entry_comment rec, markerType = entry_type rec\<rparr>
              \<in> snd ` set (m_markerList s2)" by simp_all
  show "\<exists>u r s3.
          importFromJson_loop (JObject rec # rest) ic undo redo s2 =
            importFromJson_loop rest ic u r s3 \<and>
          m_markerList s3 = m_markerList s2 \<and>
          m_markerPositions s3 = m_markerPositions s2 \<and>
          consistent s3"
    by (rule identical_record_accepted[OF c2 has mem])
qed

theorem importFromJson_conflict_aborts_witness:
  "consistent two_markers \<and> m_undoStack two_markers \<noteq> None \<and>
   JObject [(''pos'', JInt 10), (''comment'', JString ''x''), (''type'', JInt 0)]
     \<in> set [JObject [(''pos'', JInt 30)],
             JObject [(''pos'', JInt 10), (''comment'', JString ''x''), (''type'', JInt 0)]] \<and>
   conflicting (m_markerList two_markers)
     [(''pos'', JInt 10), (''comment'', JString ''x''), (''type'', JInt 0)] \<and>
   map_option fst
     (importFromJson
        (JArray [JObject [(''pos'', JInt 30)],
                 JObject [(''pos'', JInt 10), (''comment'', JString ''x''), (''type'', JInt 0)]])
        False True two_markers) = Some False \<and>
   map_option (m_markerList \<circ> snd)
     (importFromJson
        (JArray [JObject [(''pos'', JInt 30)],
                 JObject [(''pos'', JInt 10), (''comment'', JString ''x''), (''type'', JInt 0)]])
        False True two_markers) = Some (m_markerList two_markers) \<and>
   map_option fst
     (importFromJson
        (JArray [JObject [(''pos'', JInt 20), (''comment'', JString ''b''), (''type'', JInt 1)]])
        False True two_markers) = Some True \<and>
   importFromJson
     (JArray [JString ''junk'', JObject [(''comment'', JString ''q'')]]) False False two_markers =
   importFromJson (JArray [JString ''junk'']) False False two_markers \<and>
   obj_contains [(''pos'', JInt 20), (''comment'', JString ''b''), (''type'', JInt 1)] ''pos'' \<and>
   \<lparr>time = entry_pos [(''pos'', JInt 20), (''comment'', JString ''b''), (''type'', JInt 1)],
     comment = entry_comment [(''pos'', JInt 20), (''comment'', JString ''b''), (''type'', JInt 1)],
     markerType = entry_type [(''pos'', JInt 20), (''comment'', JString ''b''), (''type'', JInt 1)]\<rparr>
     \<in> snd ` set (m_markerList two_markers) \<and>
   map_option fst
     (importFromJson
        (JArray [JObject [(''pos'', JInt 30)],
                 JObject [(''pos'', JInt 20), (''comment'', JString ''b''), (''type'', JInt 1)]])
        False True two_markers) = Some True \<and>
   map_option (m_markerList \<circ> snd)
     (importFromJson
        (JArray [JObject [(''pos'', JInt 30)],
                 JObject [(''pos'', JInt 20), (''comment'', JString ''b''), (''type'', JInt 1)]])
        False True two_markers) =
     Some [(0, \<lparr>time = 10, comment = ''a'', markerType = 0\<rparr>),
           (1, \<lparr>time = 20, comment = ''b'', markerType = 1\<rparr>),
           (2, \<lparr>time = 30, comment = ''Marker'', markerType = 0\<rparr>)] \<and>
   map_option fst
     (importFromJson_loop
        [JObject [(''pos'', JInt 20), (''comment'', JString ''b''), (''type'', JInt 1)]]
        False [] [] two_markers) = Some True"
proof -
  have c: "consistent two_markers" by (rule consistent_two_markers)
  have u: "True \<longrightarrow> m_undoStack two_markers \<noteq> None" by (simp add: two_markers_def)
  have u': "False \<longrightarrow> m_undoStack two_markers \<noteq> None" by simp
  have cf: "conflicting (m_markerList two_markers)
     [(''pos'', JInt 10), (''comment'', JString ''x''), (''type'', JInt 0)]"
    by (simp add: conflicting_def two_markers_def obj_contains_def entry_pos_def
        entry_comment_def entry_type_def obj_value_def markerTypes_size_def)
  have idn: "\<forall>obj. JObject obj \<in>
         set [JObject [(''pos'', JInt 20), (''comment'', JString ''b''), (''type'', JInt 1)]] \<and>
         obj_contains obj ''pos'' \<longrightarrow>
         \<lparr>time = entry_pos obj, comment = entry_comment obj, markerType = entry_type obj\<rparr>
           \<in> snd ` set (m_markerList two_markers)"
    by (simp add: two_markers_def obj_contains_def entry_pos_def
        entry_comment_def entry_type_def obj_value_def markerTypes_size_def)
  have sk: "\<forall>obj. JObject [(''comment'', JString ''q'')] = JObject obj \<longrightarrow>
              \<not> obj_contains obj ''pos''"
    by (simp add: obj_contains_def)
  have mem: "JObject [(''pos'', JInt 10), (''comment'', JString ''x''), (''type'', JInt 0)]
     \<in> set [JObject [(''pos'', JInt 30)],
             JObject [(''pos'', JInt 10), (''comment'', JString ''x''), (''type'', JInt 0)]]"
    by simp
  from mem cf have ex: "\<exists>obj. JObject obj
     \<in> set [JObject [(''pos'', JInt 30)],
             JObject [(''pos'', JInt 10), (''comment'', JString ''x''), (''type'', JInt 0)]] \<and>
     conflicting (m_markerList two_markers) obj"
    by blast
  have rc: "obj_contains [(''pos'', JInt 20), (''comment'', JString ''b''), (''type'', JInt 1)]
              ''pos'' \<and>
   \<lparr>time = entry_pos [(''pos'', JInt 20), (''comment'', JString ''b''), (''type'', JInt 1)],
     comment = entry_comment [(''pos'', JInt 20), (''comment'', JString ''b''), (''type'', JInt 1)],
     markerType = entry_type [(''pos'', JInt 20), (''comment'', JString ''b''), (''type'', JInt 1)]\<rparr>
     \<in> snd ` set (m_markerList two_markers)"
    by (simp add: two_markers_def obj_contains_def entry_pos_def
        entry_comment_def entry_type_def obj_value_def markerTypes_size_def)
  have a: "\<exists>s'. importFromJson
        (JArray [JObject [(''pos'', JInt 30)],
                 JObject [(''pos'', JInt 10), (''comment'', JString ''x''), (''type'', JInt 0)]])
        False True two_markers = Some (False, s') \<and>
        m_markerList s' = m_markerList two_markers \<and>
        m_markerPositions s' = m_markerPositions two_markers"
    using importFromJson_conflict_aborts[OF c u, THEN conjunct1, THEN mp, OF ex] .
  have b: "\<exists>s'. importFromJson
        (JArray [JObject [(''pos'', JInt 20), (''comment'', JString ''b''), (''type'', JInt 1)]])
        False True two_markers = Some (True, s') \<and>
        m_markerList s' = m_markerList two_markers \<and>
        m_markerPositions s' = m_markerPositions two_markers"
    using importFromJson_conflict_aborts[OF c u, THEN conjunct2, THEN conjunct1, THEN mp,
        OF idn] .
  have d: "importFromJson
     (JArray ([JString ''junk''] @ JObject [(''comment'', JString ''q'')] # []))
        False False two_markers =
     importFromJson (JArray ([JString ''junk''] @ [])) False False two_markers"
    using importFromJson_conflict_aborts[OF c u', THEN conjunct2, THEN conjunct2, THEN conjunct1,
        THEN mp, OF sk] .
  have g: "\<exists>res sa sb.
     importFromJson
       (JArray ([JObject [(''pos'', JInt 30)]] @
          JObject [(''pos'', JInt 20), (''comment'', JString ''b''), (''type'', JInt 1)] # []))
       False True two_markers = Some (res, sa) \<and>
     importFromJson (JArray ([JObject [(''pos'', JInt 30)]] @ [])) False True two_markers =
       Some (res, sb) \<and>
     m_markerList sa = m_markerList sb \<and>
     m_markerPositions sa = m_markerPositions sb"
    using importFromJson_conflict_aborts[OF c u, THEN conjunct2, THEN conjunct2, THEN conjunct2,
        THEN conjunct1, THEN mp, OF rc] .
  have h: "map_option fst
       (importFromJson (JArray [JObject [(''pos'', JInt 30)]]) False True two_markers) =
       Some True"
    "map_option (m_markerList \<circ> snd)
       (importFromJson (JArray [JObject [(''pos'', JInt 30)]]) False True two_markers) =
     Some [(0, \<lparr>time = 10, comment = ''a'', markerType = 0\<rparr>),
           (1, \<lparr>time = 20, comment = ''b'', markerType = 1\<rparr>),
           (2, \<lparr>time = 30, comment = ''Marker'', markerType = 0\<rparr>)]"
    by (simp_all add: two_markers_def hasMarker_def om_contains_def importFromJson_def
        importFromJson_ur_def obj_contains_def obj_value_def
        addMarker_ur_def marker_def markerIdAtFrame_def
        addMarker_lambda_def getNextId_def addSnapPoint_def
        store_put_def markerTypes_size_def
        UPDATE_UNDO_REDO_def PUSH_UNDO_def Let_def)
  from g h have k: "map_option fst
     (importFromJson
        (JArray [JObject [(''pos'', JInt 30)],
                 JObject [(''pos'', JInt 20), (''comment'', JString ''b''), (''type'', JInt 1)]])
        False True two_markers) = Some True"
    "map_option (m_markerList \<circ> snd)
     (importFromJson
        (JArray [JObject [(''pos'', JInt 30)],
                 JObject [(''pos'', JInt 20), (''comment'', JString ''b''), (''type'', JInt 1)]])
        False True two_markers) =
     Some [(0, \<lparr>time = 10, comment = ''a'', markerType = 0\<rparr>),
           (1, \<lparr>time = 20, comment = ''b'', markerType = 1\<rparr>),
           (2, \<lparr>time = 30, comment = ''Marker'', markerType = 0\<rparr>)]"
    by auto
  have q: "\<exists>u r s3.
     importFromJson_loop
       (JObject [(''pos'', JInt 20), (''comment'', JString ''b''), (''type'', JInt 1)] # [])
       False [] [] two_markers = importFromJson_loop [] False u r s3 \<and>
     m_markerList s3 = m_markerList two_markers \<and>
     m_markerPositions s3 = m_markerPositions two_markers \<and>
     consistent s3"
    using importFromJson_conflict_aborts[OF c u, THEN conjunct2, THEN conjunct2, THEN conjunct2,
        THEN conjunct2, THEN spec, THEN spec, THEN spec, THEN spec, THEN mp,
        OF conjI[OF c rc]] .
  then have q': "map_option fst
     (importFromJson_loop
        [JObject [(''pos'', JInt 20), (''comment'', JString ''b''), (''type'', JInt 1)]]
        False [] [] two_markers) = Some True"
    by (elim exE conjE) simp
  from a b d c u cf mem rc k q' show ?thesis by auto
qed

section \<open>Item identity\<close>

text \<open>
  Claim C7. Constructing a \<^verbatim>\<open>MoveableItem\<close> with an explicit id (any value other than
  \<open>-1\<close>) keeps that id and leaves the counter alone; constructing it with \<open>-1\<close> takes
  the id that the global counter hands out, which is the counter's value, and advances
  the counter past it, so that the next item minted gets a different id. \<^verbatim>\<open>getId\<close>
  returns the id chosen.
\<close>

theorem MoveableItem_id:
  "(ident \<noteq> - 1 \<longrightarrow>
      getId (fst (MoveableItem_new parent ident n)) = ident \<and>
      snd (MoveableItem_new parent ident n) = n) \<and>
   getId (fst (MoveableItem_new parent (- 1) n)) = fst (getNextId n) \<and>
   snd (MoveableItem_new parent (- 1) n) = snd (getNextId n) \<and>
   fst (getNextId n) = n \<and>
   n < snd (getNextId n) \<and>
   getId (fst (MoveableItem_new parent' (- 1) (snd (MoveableItem_new parent (- 1) n)))) \<noteq>
     getId (fst (MoveableItem_new parent (- 1) n))"
  by (simp add: MoveableItem_new_def getNextId_def getId_def)

theorem MoveableItem_id_witness:
  "(7::int) \<noteq> - 1 \<and>
   getId (fst (MoveableItem_new 0 7 3)) = 7 \<and>
   snd (MoveableItem_new 0 7 3) = 3 \<and>
   getId (fst (MoveableItem_new 0 (- 1) 3)) = 3 \<and>
   snd (MoveableItem_new 0 (- 1) 3) = 4"
  using MoveableItem_id [of 7 0 3 0] by (simp add: getNextId_def)

end
